theory Spec2Isabelle
  imports Main "HOL-Library.Word" "HOL-Library.Code_Target_Numeral"
begin

unbundle bit_operations_syntax

section \<open>Strings and bytes of the JavaScript platform\<close>

text \<open>
  A JavaScript string is a sequence of UTF-16 code units, a \<open>Uint8Array\<close> a sequence of
  bytes. Both are lists of natural numbers here: a code unit is below 65536, a byte below
  256. \<open>js\<close> turns an ASCII literal into its code units.
\<close>

type_synonym jsstring = "nat list"
type_synonym bytes = "nat list"

definition js :: "string \<Rightarrow> jsstring" where
  "js s = map of_char s"

text \<open>
  \<open>new TextEncoder().encode(str)\<close>: the UTF-8 bytes of the string. A surrogate pair is
  one code point of four bytes; a surrogate without its partner is replaced by U+FFFD
  (bytes EF BF BD).
\<close>

definition is_high_surrogate :: "nat \<Rightarrow> bool" where
  "is_high_surrogate c = (55296 \<le> c \<and> c < 56320)"

definition is_low_surrogate :: "nat \<Rightarrow> bool" where
  "is_low_surrogate c = (56320 \<le> c \<and> c < 57344)"

definition utf8_1 :: "nat \<Rightarrow> bytes" where
  "utf8_1 c = [c]"

definition utf8_2 :: "nat \<Rightarrow> bytes" where
  "utf8_2 c = [192 + c div 64, 128 + c mod 64]"

definition utf8_3 :: "nat \<Rightarrow> bytes" where
  "utf8_3 c = [224 + c div 4096, 128 + (c div 64) mod 64, 128 + c mod 64]"

definition utf8_4 :: "nat \<Rightarrow> bytes" where
  "utf8_4 c = [240 + c div 262144, 128 + (c div 4096) mod 64, 128 + (c div 64) mod 64,
     128 + c mod 64]"

fun TextEncoder_encode :: "jsstring \<Rightarrow> bytes" where
  "TextEncoder_encode [] = []"
| "TextEncoder_encode [c] =
     (if c < 128 then utf8_1 c
      else if c < 2048 then utf8_2 c
      else if is_high_surrogate c \<or> is_low_surrogate c then utf8_3 65533
      else utf8_3 c)"
| "TextEncoder_encode (c # d # cs) =
     (if c < 128 then utf8_1 c @ TextEncoder_encode (d # cs)
      else if c < 2048 then utf8_2 c @ TextEncoder_encode (d # cs)
      else if is_high_surrogate c \<and> is_low_surrogate d
        then utf8_4 (65536 + (c - 55296) * 1024 + (d - 56320)) @ TextEncoder_encode cs
      else if is_high_surrogate c \<or> is_low_surrogate c
        then utf8_3 65533 @ TextEncoder_encode (d # cs)
      else utf8_3 c @ TextEncoder_encode (d # cs))"

section \<open>SHA-256 and HMAC of the Web Crypto API\<close>

text \<open>
  \<open>crypto.subtle.digest('SHA-256', data)\<close> and \<open>crypto.subtle.sign('HMAC', key, data)\<close>
  with hash SHA-256, as FIPS 180-4 and RFC 2104 define them, on 32-bit words.
\<close>

type_synonym w32 = "32 word"

definition sha_K :: "w32 list" where
  "sha_K = [
    1116352408, 1899447441, 3049323471, 3921009573, 961987163, 1508970993, 2453635748, 2870763221,
    3624381080, 310598401, 607225278, 1426881987, 1925078388, 2162078206, 2614888103, 3248222580,
    3835390401, 4022224774, 264347078, 604807628, 770255983, 1249150122, 1555081692, 1996064986,
    2554220882, 2821834349, 2952996808, 3210313671, 3336571891, 3584528711, 113926993, 338241895,
    666307205, 773529912, 1294757372, 1396182291, 1695183700, 1986661051, 2177026350, 2456956037,
    2730485921, 2820302411, 3259730800, 3345764771, 3516065817, 3600352804, 4094571909, 275423344,
    430227734, 506948616, 659060556, 883997877, 958139571, 1322822218, 1537002063, 1747873779,
    1955562222, 2024104815, 2227730452, 2361852424, 2428436474, 2756734187, 3204031479, 3329325298]"

definition sha_H0 :: "w32 list" where
  "sha_H0 = [1779033703, 3144134277, 1013904242, 2773480762,
             1359893119, 2600822924, 528734635, 1541459225]"

definition sha_Ch :: "w32 \<Rightarrow> w32 \<Rightarrow> w32 \<Rightarrow> w32" where
  "sha_Ch x y z = (x AND y) XOR (NOT x AND z)"

definition sha_Maj :: "w32 \<Rightarrow> w32 \<Rightarrow> w32 \<Rightarrow> w32" where
  "sha_Maj x y z = (x AND y) XOR (x AND z) XOR (y AND z)"

definition sha_Sig0 :: "w32 \<Rightarrow> w32" where
  "sha_Sig0 x = word_rotr 2 x XOR word_rotr 13 x XOR word_rotr 22 x"

definition sha_Sig1 :: "w32 \<Rightarrow> w32" where
  "sha_Sig1 x = word_rotr 6 x XOR word_rotr 11 x XOR word_rotr 25 x"

definition sha_sig0 :: "w32 \<Rightarrow> w32" where
  "sha_sig0 x = word_rotr 7 x XOR word_rotr 18 x XOR drop_bit 3 x"

definition sha_sig1 :: "w32 \<Rightarrow> w32" where
  "sha_sig1 x = word_rotr 17 x XOR word_rotr 19 x XOR drop_bit 10 x"

text \<open>The message: the bytes, a byte 0x80, zero bytes, and the bit length on 8 bytes.\<close>

definition be_bytes :: "nat \<Rightarrow> nat \<Rightarrow> bytes" where
  "be_bytes k n = map (\<lambda>i. (n div 256 ^ (k - 1 - i)) mod 256) [0..<k]"

definition sha_pad :: "bytes \<Rightarrow> bytes" where
  "sha_pad m = m @ [128] @ replicate ((119 - length m mod 64) mod 64) 0
                 @ be_bytes 8 (8 * length m)"

fun be_words :: "bytes \<Rightarrow> w32 list" where
  "be_words (a # b # c # d # r) =
     word_of_nat (a * 16777216 + b * 65536 + c * 256 + d) # be_words r"
| "be_words _ = []"

text \<open>The message schedule: 16 words of the block extended to 64.\<close>

fun sha_extend :: "nat \<Rightarrow> w32 list \<Rightarrow> w32 list" where
  "sha_extend 0 w = w"
| "sha_extend (Suc n) w =
     (let l = length w in
      sha_extend n (w @ [sha_sig1 (w ! (l - 2)) + w ! (l - 7)
                          + sha_sig0 (w ! (l - 15)) + w ! (l - 16)]))"

fun sha_round :: "w32 list \<Rightarrow> w32 \<times> w32 \<Rightarrow> w32 list" where
  "sha_round [a, b, c, d, e, f, g, h] (k, w) =
     (let t1 = h + sha_Sig1 e + sha_Ch e f g + k + w;
          t2 = sha_Sig0 a + sha_Maj a b c
      in [t1 + t2, a, b, c, d + t1, e, f, g])"
| "sha_round s _ = s"

definition sha_compress :: "w32 list \<Rightarrow> w32 list \<Rightarrow> w32 list" where
  "sha_compress hs block =
     map2 (+) hs (foldl sha_round hs (zip sha_K (sha_extend 48 block)))"

fun sha_blocks :: "w32 list \<Rightarrow> w32 list \<Rightarrow> w32 list" where
  "sha_blocks hs ws =
     (if length ws < 16 then hs
      else sha_blocks (sha_compress hs (take 16 ws)) (drop 16 ws))"

declare sha_blocks.simps [simp del]

definition sha256 :: "bytes \<Rightarrow> bytes" where
  "sha256 m = concat (map (\<lambda>w. be_bytes 4 (unat w)) (sha_blocks sha_H0 (be_words (sha_pad m))))"

text \<open>
  HMAC with a raw key: a key longer than the 64-byte block is hashed first, then padded
  with zero bytes to the block.
\<close>

definition hmac_sha256 :: "bytes \<Rightarrow> bytes \<Rightarrow> bytes" where
  "hmac_sha256 key m =
     (let k0 = (if length key > 64 then sha256 key else key);
          k = k0 @ replicate (64 - length k0) 0;
          ipad = map (\<lambda>b. unat ((word_of_nat b :: 8 word) XOR 0x36)) k;
          opad = map (\<lambda>b. unat ((word_of_nat b :: 8 word) XOR 0x5c)) k
      in sha256 (opad @ sha256 (ipad @ m)))"

section \<open>Password hashing (lib/crypto-edge.ts)\<close>

text \<open>\<open>b.toString(16).padStart(2, '0')\<close> for a byte, and the join over the array.\<close>

definition hex_digit :: "nat \<Rightarrow> nat" where
  "hex_digit d = (if d < 10 then 48 + d else 87 + d)"

definition byte_hex :: "nat \<Rightarrow> jsstring" where
  "byte_hex b = [hex_digit (b div 16), hex_digit (b mod 16)]"

definition uint8ArrayToHex :: "bytes \<Rightarrow> jsstring" where
  "uint8ArrayToHex arr = concat (map byte_hex arr)"

definition hash :: "jsstring \<Rightarrow> jsstring" where
  "hash password = uint8ArrayToHex (sha256 (TextEncoder_encode password))"

definition compare :: "jsstring \<Rightarrow> jsstring \<Rightarrow> bool" where
  "compare password storedHash = (hash password = storedHash)"


section \<open>String methods\<close>

definition startsWith :: "jsstring \<Rightarrow> jsstring \<Rightarrow> bool" where
  "startsWith s p = (take (length p) s = p)"

definition endsWith :: "jsstring \<Rightarrow> jsstring \<Rightarrow> bool" where
  "endsWith s p = (length p \<le> length s \<and> drop (length s - length p) s = p)"

text \<open>\<open>str.split(sep)\<close> for a separator of one code unit: the empty string has one part.\<close>

fun split :: "nat \<Rightarrow> jsstring \<Rightarrow> jsstring list" where
  "split sep [] = [[]]"
| "split sep (c # cs) =
     (if c = sep then [] # split sep cs
      else (case split sep cs of [] \<Rightarrow> [[c]] | p # ps \<Rightarrow> (c # p) # ps))"

text \<open>\<open>str.replace(/x/g, 'y')\<close> and \<open>str.replace(/x/g, '')\<close> for one code unit \<open>x\<close>.\<close>

definition replace_all :: "nat \<Rightarrow> nat \<Rightarrow> jsstring \<Rightarrow> jsstring" where
  "replace_all x y s = map (\<lambda>c. if c = x then y else c) s"

definition remove_all :: "nat \<Rightarrow> jsstring \<Rightarrow> jsstring" where
  "remove_all x s = filter (\<lambda>c. c \<noteq> x) s"

section \<open>Errors\<close>

text \<open>
  What a \<open>throw\<close> carries: an \<open>Error\<close> with its message, or an exception of the
  platform (\<open>DOMException\<close> with its name, \<open>SyntaxError\<close>, \<open>TypeError\<close>).
\<close>

datatype js_error = Error string | DOMException string | SyntaxError | TypeError

section \<open>Base64 (btoa, atob)\<close>

definition b64_char :: "nat \<Rightarrow> nat" where
  "b64_char i = (if i < 26 then 65 + i else if i < 52 then 71 + i
                 else if i < 62 then i - 4 else if i = 62 then 43 else 47)"

fun b64_encode :: "bytes \<Rightarrow> jsstring" where
  "b64_encode [] = []"
| "b64_encode [a] = [b64_char (a div 4), b64_char ((a mod 4) * 16), 61, 61]"
| "b64_encode [a, b] =
     [b64_char (a div 4), b64_char ((a mod 4) * 16 + b div 16), b64_char ((b mod 16) * 4), 61]"
| "b64_encode (a # b # c # r) =
     [b64_char (a div 4), b64_char ((a mod 4) * 16 + b div 16),
      b64_char ((b mod 16) * 4 + c div 64), b64_char (c mod 64)] @ b64_encode r"

text \<open>\<open>btoa\<close> throws InvalidCharacterError on a code unit above 255.\<close>

definition btoa :: "jsstring \<Rightarrow> js_error + jsstring" where
  "btoa s = (if \<forall>c \<in> set s. c \<le> 255 then Inr (b64_encode s)
             else Inl (DOMException ''InvalidCharacterError''))"

definition b64_val :: "nat \<Rightarrow> nat option" where
  "b64_val c = (if 65 \<le> c \<and> c \<le> 90 then Some (c - 65)
                else if 97 \<le> c \<and> c \<le> 122 then Some (c - 71)
                else if 48 \<le> c \<and> c \<le> 57 then Some (c + 4)
                else if c = 43 then Some 62
                else if c = 47 then Some 63
                else None)"

fun b64_decode :: "nat list \<Rightarrow> bytes" where
  "b64_decode (a # b # c # d # r) =
     [a * 4 + b div 16, (b mod 16) * 16 + c div 4, (c mod 4) * 64 + d] @ b64_decode r"
| "b64_decode [a, b, c] = [a * 4 + b div 16, (b mod 16) * 16 + c div 4]"
| "b64_decode [a, b] = [a * 4 + b div 16]"
| "b64_decode _ = []"

definition is_ascii_whitespace :: "nat \<Rightarrow> bool" where
  "is_ascii_whitespace c = (c = 9 \<or> c = 10 \<or> c = 12 \<or> c = 13 \<or> c = 32)"

definition strip_padding :: "jsstring \<Rightarrow> jsstring" where
  "strip_padding d =
     (if length d mod 4 = 0 \<and> d \<noteq> [] \<and> last d = 61
      then (if butlast d \<noteq> [] \<and> last (butlast d) = 61 then butlast (butlast d)
            else butlast d)
      else d)"

text \<open>
  \<open>atob\<close> (forgiving-base64 decode): ASCII whitespace is removed; of a length that is a
  multiple of 4, one or two final \<open>=\<close> are removed; a length of 1 modulo 4 and a
  character outside the alphabet throw InvalidCharacterError.
\<close>

definition atob :: "jsstring \<Rightarrow> js_error + jsstring" where
  "atob s =
     (let d = strip_padding (filter (\<lambda>c. \<not> is_ascii_whitespace c) s)
      in if length d mod 4 = 1 \<or> (\<exists>c \<in> set d. b64_val c = None)
         then Inl (DOMException ''InvalidCharacterError'')
         else Inr (b64_decode (map (\<lambda>c. the (b64_val c)) d)))"

section \<open>JWT utilities (lib/jwt-edge.ts)\<close>

definition base64UrlEncode :: "jsstring \<Rightarrow> js_error + jsstring" where
  "base64UrlEncode str =
     (case btoa str of Inl e \<Rightarrow> Inl e
      | Inr b \<Rightarrow> Inr (remove_all 61 (replace_all 47 95 (replace_all 43 45 b))))"

text \<open>The loop \<open>while (str.length % 4) str += '='\<close>.\<close>

function pad4 :: "jsstring \<Rightarrow> jsstring" where
  "pad4 str = (if length str mod 4 \<noteq> 0 then pad4 (str @ [61]) else str)"
  by pat_completeness auto
termination
proof (relation "measure (\<lambda>s. (4 - length s mod 4) mod 4)")
  show "wf (measure (\<lambda>s::jsstring. (4 - length s mod 4) mod 4))" by simp
next
  fix str :: jsstring
  assume a: "length str mod 4 \<noteq> 0"
  have "(length str + 1) mod 4 = (if length str mod 4 = 3 then 0 else length str mod 4 + 1)"
    by presburger
  with a show "(str @ [61], str) \<in> measure (\<lambda>s. (4 - length s mod 4) mod 4)"
    by (simp split: if_splits)
qed

definition base64UrlDecode :: "jsstring \<Rightarrow> js_error + jsstring" where
  "base64UrlDecode str = atob (pad4 (replace_all 95 47 (replace_all 45 43 str)))"

definition stringToUint8Array :: "jsstring \<Rightarrow> bytes" where
  "stringToUint8Array str = TextEncoder_encode str"

text \<open>
  \<open>createSignature\<close>: the HMAC of the data under the secret, written in hexadecimal, and
  that hexadecimal text base64url-encoded. \<open>importKey\<close> rejects an empty key (DataError).
\<close>

definition createSignature :: "jsstring \<Rightarrow> jsstring \<Rightarrow> js_error + jsstring" where
  "createSignature data secret =
     (let keyData = TextEncoder_encode secret
      in if keyData = [] then Inl (DOMException ''DataError'')
         else let signatureArray = hmac_sha256 keyData (TextEncoder_encode data);
                  signatureHex = uint8ArrayToHex signatureArray
              in base64UrlEncode signatureHex)"

text \<open>
  \<open>JWT_SECRET = process.env.JWT_SECRET || 'default-secret-key-change-in-production'\<close>;
  the argument is the environment variable, \<open>None\<close> when it is not set.
\<close>

definition JWT_SECRET :: "jsstring option \<Rightarrow> jsstring" where
  "JWT_SECRET env =
     (case env of None \<Rightarrow> js ''default-secret-key-change-in-production''
      | Some s \<Rightarrow> if s = [] then js ''default-secret-key-change-in-production'' else s)"

declare pad4.simps [simp del]

section \<open>JavaScript values and JSON\<close>

text \<open>
  The values that \<open>JSON.parse\<close> returns and \<open>JSON.stringify\<close> takes. A number is an
  integer or \<open>NaN\<close>: the timestamps of a token are integers of seconds, on which the
  arithmetic of doubles is exact below \<open>2^53\<close>. Doubles with a fraction or an exponent
  are not represented. An object is the list of its properties in insertion order.
\<close>

datatype jsval =
    JUndefined | JNull | JBool bool | JNum int | JNaN | JStr jsstring
  | JArr "jsval list" | JObj "(jsstring \<times> jsval) list"

text \<open>A short-circuiting sequence: the first \<open>throw\<close> ends the block.\<close>

definition andThen :: "js_error + 'a \<Rightarrow> ('a \<Rightarrow> js_error + 'b) \<Rightarrow> js_error + 'b" where
  "andThen r f = (case r of Inl e \<Rightarrow> Inl e | Inr v \<Rightarrow> f v)"

function dec_nat :: "nat \<Rightarrow> jsstring" where
  "dec_nat n = (if n < 10 then [48 + n] else dec_nat (n div 10) @ [48 + n mod 10])"
  by pat_completeness auto
termination
  by (relation "measure (\<lambda>n. n)") simp_all

declare dec_nat.simps [simp del]

definition Number_toString :: "int \<Rightarrow> jsstring" where
  "Number_toString n = (if n < 0 then 45 # dec_nat (nat (- n)) else dec_nat (nat n))"

fun join :: "jsstring \<Rightarrow> jsstring list \<Rightarrow> jsstring" where
  "join sep [] = []"
| "join sep [x] = x"
| "join sep (x # y # r) = x @ sep @ join sep (y # r)"

text \<open>
  \<open>QuoteJSONString\<close>: the short escapes, \<open>\uXXXX\<close> for the other control characters and
  for a surrogate without its partner, every other code unit as it is.
\<close>

definition hex4 :: "nat \<Rightarrow> jsstring" where
  "hex4 c = [hex_digit (c div 4096 mod 16), hex_digit (c div 256 mod 16),
             hex_digit (c div 16 mod 16), hex_digit (c mod 16)]"

definition json_escape1 :: "nat \<Rightarrow> jsstring" where
  "json_escape1 c =
     (if c = 8 then [92, 98] else if c = 9 then [92, 116] else if c = 10 then [92, 110]
      else if c = 12 then [92, 102] else if c = 13 then [92, 114]
      else if c = 34 then [92, 34] else if c = 92 then [92, 92]
      else if c < 32 \<or> is_high_surrogate c \<or> is_low_surrogate c then [92, 117] @ hex4 c
      else [c])"

fun json_escape :: "jsstring \<Rightarrow> jsstring" where
  "json_escape [] = []"
| "json_escape [c] = json_escape1 c"
| "json_escape (c # d # cs) =
     (if is_high_surrogate c \<and> is_low_surrogate d then c # d # json_escape cs
      else json_escape1 c @ json_escape (d # cs))"

definition QuoteJSONString :: "jsstring \<Rightarrow> jsstring" where
  "QuoteJSONString s = [34] @ json_escape s @ [34]"

text \<open>
  \<open>JSON.stringify(value)\<close> for a value that is not \<open>undefined\<close> itself: a property
  whose value is \<open>undefined\<close> is left out, an array element \<open>undefined\<close> and the number
  \<open>NaN\<close> are written \<open>null\<close>.
\<close>

fun JSON_stringify :: "jsval \<Rightarrow> jsstring" where
  "JSON_stringify JUndefined = js ''null''"
| "JSON_stringify JNull = js ''null''"
| "JSON_stringify (JBool b) = (if b then js ''true'' else js ''false'')"
| "JSON_stringify (JNum n) = Number_toString n"
| "JSON_stringify JNaN = js ''null''"
| "JSON_stringify (JStr s) = QuoteJSONString s"
| "JSON_stringify (JArr xs) = [91] @ join [44] (map JSON_stringify xs) @ [93]"
| "JSON_stringify (JObj kvs) =
     [123] @ join [44] (map (\<lambda>kv. QuoteJSONString (fst kv) @ [58] @ JSON_stringify (snd kv))
                          (filter (\<lambda>kv. snd kv \<noteq> JUndefined) kvs)) @ [125]"

text \<open>\<open>JSON.parse\<close>: strings.\<close>

definition hexval :: "nat \<Rightarrow> nat option" where
  "hexval c = (if 48 \<le> c \<and> c \<le> 57 then Some (c - 48)
               else if 97 \<le> c \<and> c \<le> 102 then Some (c - 87)
               else if 65 \<le> c \<and> c \<le> 70 then Some (c - 55)
               else None)"

definition parse_hex4 :: "nat \<Rightarrow> nat \<Rightarrow> nat \<Rightarrow> nat \<Rightarrow> nat option" where
  "parse_hex4 a b c d =
     (case (hexval a, hexval b, hexval c, hexval d) of
        (Some x, Some y, Some z, Some w) \<Rightarrow> Some (((x * 16 + y) * 16 + z) * 16 + w)
      | _ \<Rightarrow> None)"

definition simple_escape :: "nat \<Rightarrow> nat option" where
  "simple_escape e =
     (if e = 34 then Some 34 else if e = 92 then Some 92 else if e = 47 then Some 47
      else if e = 98 then Some 8 else if e = 102 then Some 12 else if e = 110 then Some 10
      else if e = 114 then Some 13 else if e = 116 then Some 9 else None)"

definition cons_result :: "nat \<Rightarrow> (jsstring \<times> jsstring) option \<Rightarrow> (jsstring \<times> jsstring) option" where
  "cons_result c r = (case r of None \<Rightarrow> None | Some (s, rest) \<Rightarrow> Some (c # s, rest))"

text \<open>The characters after the opening quote: the string and what follows its closing quote.\<close>

fun parse_string_body :: "jsstring \<Rightarrow> (jsstring \<times> jsstring) option" where
  "parse_string_body [] = None"
| "parse_string_body [c] = (if c = 34 then Some ([], []) else None)"
| "parse_string_body (c # e # r) =
     (if c = 34 then Some ([], e # r)
      else if c = 92 then
        (if e = 117 then
           (case r of
              h1 # h2 # h3 # h4 # r' \<Rightarrow>
                (case parse_hex4 h1 h2 h3 h4 of None \<Rightarrow> None
                 | Some u \<Rightarrow> cons_result u (parse_string_body r'))
            | _ \<Rightarrow> None)
         else (case simple_escape e of None \<Rightarrow> None
               | Some u \<Rightarrow> cons_result u (parse_string_body r)))
      else if c < 32 then None
      else cons_result c (parse_string_body (e # r)))"

text \<open>
  Numbers: an optional minus sign and an integer part without leading zeros. A fraction or
  an exponent after it is a double, which these values do not cover; such a text is
  refused here.
\<close>

definition is_digit :: "nat \<Rightarrow> bool" where
  "is_digit c = (48 \<le> c \<and> c \<le> 57)"

definition digits_value :: "jsstring \<Rightarrow> nat" where
  "digits_value ds = foldl (\<lambda>a d. 10 * a + (d - 48)) 0 ds"

definition parse_number :: "jsstring \<Rightarrow> (jsval \<times> jsstring) option" where
  "parse_number s =
     (let neg = (s \<noteq> [] \<and> hd s = 45);
          s1 = (if neg then tl s else s);
          ds = (if s1 \<noteq> [] \<and> hd s1 = 48 then [48] else takeWhile is_digit s1);
          rest = drop (length ds) s1
      in if ds = [] then None
         else if rest \<noteq> [] \<and> (hd rest = 46 \<or> hd rest = 101 \<or> hd rest = 69) then None
         else Some (JNum (if neg then - int (digits_value ds) else int (digits_value ds)), rest))"

definition parse_literal :: "jsstring \<Rightarrow> (jsval \<times> jsstring) option" where
  "parse_literal s =
     (if take 4 s = js ''null'' then Some (JNull, drop 4 s)
      else if take 4 s = js ''true'' then Some (JBool True, drop 4 s)
      else if take 5 s = js ''false'' then Some (JBool False, drop 5 s)
      else None)"

definition is_json_ws :: "nat \<Rightarrow> bool" where
  "is_json_ws c = (c = 9 \<or> c = 10 \<or> c = 13 \<or> c = 32)"

definition skip_ws :: "jsstring \<Rightarrow> jsstring" where
  "skip_ws s = dropWhile is_json_ws s"

text \<open>
  Values, array elements and object members by recursive descent. The first argument
  bounds the depth of the recursion; \<open>JSON_parse\<close> starts it above what a text of that
  length can need (two levels for each character).
\<close>

fun parse_value :: "nat \<Rightarrow> jsstring \<Rightarrow> (jsval \<times> jsstring) option"
  and parse_elements :: "nat \<Rightarrow> jsval list \<Rightarrow> jsstring \<Rightarrow> (jsval \<times> jsstring) option"
  and parse_members :: "nat \<Rightarrow> (jsstring \<times> jsval) list \<Rightarrow> jsstring \<Rightarrow> (jsval \<times> jsstring) option"
where
  "parse_value 0 s = None"
| "parse_value (Suc n) s =
     (case skip_ws s of [] \<Rightarrow> None
      | c # r \<Rightarrow>
          if c = 123 then
            (case skip_ws r of [] \<Rightarrow> None
             | c' # r' \<Rightarrow> if c' = 125 then Some (JObj [], r') else parse_members n [] (c' # r'))
          else if c = 91 then
            (case skip_ws r of [] \<Rightarrow> None
             | c' # r' \<Rightarrow> if c' = 93 then Some (JArr [], r') else parse_elements n [] (c' # r'))
          else if c = 34 then
            (case parse_string_body r of None \<Rightarrow> None | Some (str, r') \<Rightarrow> Some (JStr str, r'))
          else if c = 45 \<or> is_digit c then parse_number (c # r)
          else parse_literal (c # r))"
| "parse_elements 0 acc s = None"
| "parse_elements (Suc n) acc s =
     (case parse_value n s of None \<Rightarrow> None
      | Some (v, r) \<Rightarrow>
          (case skip_ws r of [] \<Rightarrow> None
           | c # r' \<Rightarrow> if c = 44 then parse_elements n (acc @ [v]) r'
                       else if c = 93 then Some (JArr (acc @ [v]), r')
                       else None))"
| "parse_members 0 acc s = None"
| "parse_members (Suc n) acc s =
     (case skip_ws s of [] \<Rightarrow> None
      | c # r \<Rightarrow>
          if c \<noteq> 34 then None
          else (case parse_string_body r of None \<Rightarrow> None
                | Some (k, r1) \<Rightarrow>
                    (case skip_ws r1 of [] \<Rightarrow> None
                     | c1 # r2 \<Rightarrow>
                         if c1 \<noteq> 58 then None
                         else (case parse_value n r2 of None \<Rightarrow> None
                               | Some (v, r3) \<Rightarrow>
                                   (case skip_ws r3 of [] \<Rightarrow> None
                                    | c3 # r4 \<Rightarrow>
                                        if c3 = 44 then parse_members n (acc @ [(k, v)]) r4
                                        else if c3 = 125 then Some (JObj (acc @ [(k, v)]), r4)
                                        else None)))))"

definition JSON_parse :: "jsstring \<Rightarrow> js_error + jsval" where
  "JSON_parse s =
     (case parse_value (2 * length s + 2) s of None \<Rightarrow> Inl SyntaxError
      | Some (v, r) \<Rightarrow> if skip_ws r = [] then Inr v else Inl SyntaxError)"

declare parse_value.simps [simp del] parse_elements.simps [simp del]
  parse_members.simps [simp del]

text \<open>
  Reading a property \<open>value.name\<close> for a name that no prototype defines (\<open>exp\<close>,
  \<open>role\<close> and \<open>userId\<close> are such names): a TypeError on \<open>null\<close> and
  \<open>undefined\<close>, the last property of that name in an object, \<open>undefined\<close> otherwise.
\<close>

definition get_field :: "jsval \<Rightarrow> jsstring \<Rightarrow> js_error + jsval" where
  "get_field v name =
     (case v of
        JUndefined \<Rightarrow> Inl TypeError
      | JNull \<Rightarrow> Inl TypeError
      | JObj kvs \<Rightarrow> Inr (case map_of (rev kvs) name of None \<Rightarrow> JUndefined | Some x \<Rightarrow> x)
      | _ \<Rightarrow> Inr JUndefined)"

text \<open>The truth value of a condition (\<open>ToBoolean\<close>).\<close>

definition truthy :: "jsval \<Rightarrow> bool" where
  "truthy v =
     (case v of
        JUndefined \<Rightarrow> False | JNull \<Rightarrow> False | JBool b \<Rightarrow> b | JNum n \<Rightarrow> n \<noteq> 0
      | JNaN \<Rightarrow> False | JStr s \<Rightarrow> s \<noteq> [] | _ \<Rightarrow> True)"

text \<open>\<open>ToString\<close>: an array joins its elements with commas, \<open>null\<close> and \<open>undefined\<close> empty.\<close>

fun ToString :: "jsval \<Rightarrow> jsstring" where
  "ToString JUndefined = js ''undefined''"
| "ToString JNull = js ''null''"
| "ToString (JBool b) = (if b then js ''true'' else js ''false'')"
| "ToString (JNum n) = Number_toString n"
| "ToString JNaN = js ''NaN''"
| "ToString (JStr s) = s"
| "ToString (JArr xs) =
     join [44] (map (\<lambda>x. if x = JUndefined \<or> x = JNull then [] else ToString x) xs)"
| "ToString (JObj kvs) = js ''[object Object]''"

definition is_js_whitespace :: "nat \<Rightarrow> bool" where
  "is_js_whitespace c =
     (c = 9 \<or> c = 10 \<or> c = 11 \<or> c = 12 \<or> c = 13 \<or> c = 32 \<or> c = 160 \<or> c = 5760
      \<or> (8192 \<le> c \<and> c \<le> 8202) \<or> c = 8232 \<or> c = 8233 \<or> c = 8239 \<or> c = 8287
      \<or> c = 12288 \<or> c = 65279)"

text \<open>
  \<open>ToNumber\<close>. Of a string, the forms read here are the empty string and a signed decimal
  integer, between white space; the other numeric forms (hexadecimal, fraction, exponent,
  Infinity) are doubles or rare, and are read as \<open>NaN\<close>.
\<close>

definition StringToNumber :: "jsstring \<Rightarrow> jsval" where
  "StringToNumber s =
     (let t = rev (dropWhile is_js_whitespace (rev (dropWhile is_js_whitespace s)));
          neg = (t \<noteq> [] \<and> hd t = 45);
          ds = (if t \<noteq> [] \<and> (hd t = 45 \<or> hd t = 43) then tl t else t)
      in if t = [] then JNum 0
         else if ds \<noteq> [] \<and> (\<forall>c \<in> set ds. is_digit c)
           then JNum (if neg then - int (digits_value ds) else int (digits_value ds))
         else JNaN)"

definition ToNumber :: "jsval \<Rightarrow> jsval" where
  "ToNumber v =
     (case v of
        JUndefined \<Rightarrow> JNaN | JNull \<Rightarrow> JNum 0 | JBool b \<Rightarrow> JNum (if b then 1 else 0)
      | JNum n \<Rightarrow> JNum n | JNaN \<Rightarrow> JNaN | JStr s \<Rightarrow> StringToNumber s
      | _ \<Rightarrow> StringToNumber (ToString v))"

text \<open>\<open>value < n\<close> for a number \<open>n\<close>: false when the value is not a number.\<close>

definition js_less :: "jsval \<Rightarrow> int \<Rightarrow> bool" where
  "js_less v n = (case ToNumber v of JNum m \<Rightarrow> m < n | _ \<Rightarrow> False)"

text \<open>
  \<open>parseInt(string)\<close>: leading white space, a sign, a prefix \<open>0x\<close> for base 16, then
  the longest run of digits; \<open>NaN\<close> when there is none.
\<close>

definition is_hex_digit :: "nat \<Rightarrow> bool" where
  "is_hex_digit c = (hexval c \<noteq> None)"

definition hex_digits_value :: "jsstring \<Rightarrow> nat" where
  "hex_digits_value ds = foldl (\<lambda>a d. 16 * a + (case hexval d of None \<Rightarrow> 0 | Some x \<Rightarrow> x)) 0 ds"

definition parseInt :: "jsstring \<Rightarrow> jsval" where
  "parseInt str =
     (let s1 = dropWhile is_js_whitespace str;
          neg = (s1 \<noteq> [] \<and> hd s1 = 45);
          s2 = (if s1 \<noteq> [] \<and> (hd s1 = 45 \<or> hd s1 = 43) then tl s1 else s1);
          hex = (take 2 s2 = [48, 120] \<or> take 2 s2 = [48, 88]);
          ds = (if hex then takeWhile is_hex_digit (drop 2 s2) else takeWhile is_digit s2);
          v = (if hex then hex_digits_value ds else digits_value ds)
      in if ds = [] then JNaN else JNum (if neg then - int v else int v))"

definition js_times :: "jsval \<Rightarrow> int \<Rightarrow> jsval" where
  "js_times v k = (case v of JNum n \<Rightarrow> JNum (n * k) | _ \<Rightarrow> JNaN)"


section \<open>Signing and verifying tokens (lib/jwt-edge.ts)\<close>


text \<open>
  The seconds that the duration text \<open>expiresIn\<close> stands for; the argument is \<open>None\<close>
  when the caller leaves it out, and the default \<open>'24h'\<close> applies.
\<close>

definition expirationSeconds :: "jsstring option \<Rightarrow> jsval" where
  "expirationSeconds expiresIn_arg =
     (let expiresIn = (case expiresIn_arg of None \<Rightarrow> js ''24h'' | Some e \<Rightarrow> e)
      in if endsWith expiresIn (js ''h'') then js_times (parseInt expiresIn) 3600
         else if endsWith expiresIn (js ''d'') then js_times (parseInt expiresIn) 86400
         else JNum 86400)"


definition header :: jsval where
  "header = JObj [(js ''alg'', JStr (js ''HS256'')), (js ''typ'', JStr (js ''JWT''))]"


text \<open>The body of the \<open>try\<close> block of \<open>verifyToken\<close>, with what it throws.\<close>

definition verifyToken_try :: "jsstring option \<Rightarrow> int \<Rightarrow> jsstring \<Rightarrow> js_error + jsval" where
  "verifyToken_try env now token =
     (case split 46 token of
        [encodedHeader, encodedPayload, signature] \<Rightarrow>
          (let data = encodedHeader @ [46] @ encodedPayload in
           andThen (createSignature data (JWT_SECRET env)) (\<lambda>expectedSignature.
           if signature \<noteq> expectedSignature then Inl (Error ''Invalid signature'')
           else
             andThen (base64UrlDecode encodedPayload) (\<lambda>payloadJson.
             andThen (JSON_parse payloadJson) (\<lambda>payload.
             andThen (get_field payload (js ''exp'')) (\<lambda>exp.
             if truthy exp \<and> js_less exp now then Inl (Error ''Token expired'')
             else Inr payload)))))
      | _ \<Rightarrow> Inl (Error ''Invalid token format''))"

text \<open>The \<open>catch\<close> replaces whatever was thrown by one error.\<close>

definition verifyToken :: "jsstring option \<Rightarrow> int \<Rightarrow> jsstring \<Rightarrow> js_error + jsval" where
  "verifyToken env now token =
     (case verifyToken_try env now token of
        Inl error \<Rightarrow> Inl (Error ''Invalid or expired token'')
      | Inr payload \<Rightarrow> Inr payload)"

section \<open>The middleware (middleware.ts)\<close>

text \<open>
  Of a request: the path, the value of the cookie \<open>auth_token\<close> (\<open>None\<close> without the
  cookie) and the headers. The function \<open>middleware\<close> is what runs on a request; for which
  paths the framework calls it is decided by the \<open>matcher\<close> of \<open>config\<close>, which is not
  part of the function.
\<close>

type_synonym headers = "jsstring \<rightharpoonup> jsstring"

record request =
  pathname :: jsstring
  auth_token :: "jsstring option"
  request_headers :: headers

text \<open>
  \<open>headers.set(name, value)\<close> of the Fetch standard, for a valid name: the value is
  converted to a byte string (TypeError above 255), HTTP white space is stripped at both
  ends, and a value with a NUL, LF or CR byte is refused with a TypeError.
\<close>

definition is_http_whitespace :: "nat \<Rightarrow> bool" where
  "is_http_whitespace c = (c = 9 \<or> c = 10 \<or> c = 13 \<or> c = 32)"

definition normalize_header_value :: "jsstring \<Rightarrow> jsstring" where
  "normalize_header_value v =
     rev (dropWhile is_http_whitespace (rev (dropWhile is_http_whitespace v)))"

definition Headers_set :: "headers \<Rightarrow> jsstring \<Rightarrow> jsval \<Rightarrow> js_error + headers" where
  "Headers_set hs name v =
     (let s = ToString v in
      if \<exists>c \<in> set s. c > 255 then Inl TypeError
      else let n = normalize_header_value s in
        if \<exists>c \<in> set n. c = 0 \<or> c = 10 \<or> c = 13 then Inl TypeError
        else Inr (hs(name \<mapsto> n)))"

text \<open>
  The responses: \<open>NextResponse.next()\<close>, with the request headers it overrides if any;
  \<open>NextResponse.redirect\<close> to a path of the same origin; \<open>NextResponse.json\<close> with a
  status and the message of \<open>{success: false, message}\<close>. \<open>cookie_deleted\<close> records
  \<open>response.cookies.delete('auth_token')\<close>.
\<close>

datatype result = Next "headers option" | Redirect jsstring | Json nat string

record response =
  result :: result
  cookie_deleted :: bool

definition respond :: "result \<Rightarrow> response" where
  "respond r = \<lparr>result = r, cookie_deleted = False\<rparr>"

text \<open>The second \<open>try\<close> block of the middleware.\<close>

definition verified_branch :: "jsstring option \<Rightarrow> int \<Rightarrow> request \<Rightarrow> jsstring \<Rightarrow> js_error + response" where
  "verified_branch env now req token =
     andThen (verifyToken env now token) (\<lambda>decoded.
     andThen (get_field decoded (js ''userId'')) (\<lambda>decoded_userId.
     andThen (Headers_set (request_headers req) (js ''x-user-id'') decoded_userId) (\<lambda>h1.
     andThen (get_field decoded (js ''role'')) (\<lambda>decoded_role.
     andThen (Headers_set h1 (js ''x-user-role'') decoded_role) (\<lambda>requestHeaders.
     if startsWith (pathname req) (js ''/instructor'') \<and> decoded_role \<noteq> JStr (js ''instructor'')
       then Inr (respond (Redirect (js ''/student/quiz'')))
     else if startsWith (pathname req) (js ''/student'') \<and> decoded_role \<noteq> JStr (js ''student'')
       then Inr (respond (Redirect (js ''/instructor/dashboard'')))
     else Inr (respond (Next (Some requestHeaders))))))))"

definition middleware :: "jsstring option \<Rightarrow> int \<Rightarrow> request \<Rightarrow> response" where
  "middleware env now req =
     (if startsWith (pathname req) (js ''/api/auth'') \<or> pathname req = js ''/api/health''
      then respond (Next None)
      else
        let publicRoutes = [js ''/'', js ''/login'', js ''/signup''];
            isPublicRoute = (pathname req \<in> set publicRoutes);
            isApiRoute = startsWith (pathname req) (js ''/api/'');
            token = (case auth_token req of None \<Rightarrow> [] | Some t \<Rightarrow> t)
        in
          if isPublicRoute \<and> token = [] then respond (Next None)
          else if isPublicRoute \<and> token \<noteq> []
                  \<and> (pathname req = js ''/login'' \<or> pathname req = js ''/signup'') then
            (case andThen (verifyToken env now token) (\<lambda>decoded. get_field decoded (js ''role'')) of
               Inr decoded_role \<Rightarrow>
                 respond (Redirect (if decoded_role = JStr (js ''instructor'')
                                    then js ''/instructor/dashboard'' else js ''/student/quiz''))
             | Inl e \<Rightarrow> respond (Next None))
          else if token = [] \<and> \<not> isPublicRoute then
            (if isApiRoute then respond (Json 401 ''Not authenticated'')
             else respond (Redirect (js ''/login'')))
          else if token \<noteq> [] then
            (case verified_branch env now req token of
               Inr resp \<Rightarrow> resp
             | Inl error \<Rightarrow>
                 \<lparr>result = (if isApiRoute then Json 401 ''Invalid or expired token''
                             else Redirect (js ''/login'')),
                  cookie_deleted = True\<rparr>)
          else respond (Next None))"

section \<open>Auxiliary notions for the proofs\<close>

text \<open>The base64 text of a byte sequence without its padding.\<close>

fun b64_body :: "bytes \<Rightarrow> jsstring" where
  "b64_body [] = []"
| "b64_body [a] = [b64_char (a div 4), b64_char ((a mod 4) * 16)]"
| "b64_body [a, b] =
     [b64_char (a div 4), b64_char ((a mod 4) * 16 + b div 16), b64_char ((b mod 16) * 4)]"
| "b64_body (a # b # c # r) =
     [b64_char (a div 4), b64_char ((a mod 4) * 16 + b div 16),
      b64_char ((b mod 16) * 4 + c div 64), b64_char (c mod 64)] @ b64_body r"

text \<open>The two replacements of \<open>base64UrlEncode\<close> on one character.\<close>

definition url_char :: "nat \<Rightarrow> nat" where
  "url_char c = (if c = 43 then 45 else if c = 47 then 95 else c)"

text \<open>The hexadecimal text of the MAC, which \<open>createSignature\<close> encodes.\<close>

definition signature_hex :: "jsstring \<Rightarrow> jsstring \<Rightarrow> jsstring" where
  "signature_hex data secret =
     uint8ArrayToHex (hmac_sha256 (TextEncoder_encode secret) (TextEncoder_encode data))"

text \<open>
  The values of a token payload: strings and integers. \<open>member_text\<close> is the JSON text
  of one property.
\<close>

fun is_simple :: "jsval \<Rightarrow> bool" where
  "is_simple (JStr s) = True"
| "is_simple (JNum i) = True"
| "is_simple _ = False"

definition member_text :: "jsstring \<times> jsval \<Rightarrow> jsstring" where
  "member_text kv = QuoteJSONString (fst kv) @ [58] @ JSON_stringify (snd kv)"

text \<open>Texts that \<open>btoa\<close> accepts: every code unit is at most 255.\<close>

definition latin1 :: "jsstring \<Rightarrow> bool" where
  "latin1 s = (\<forall>c \<in> set s. c \<le> 255)"

text \<open>The token of a header part, a payload object and the signature of both.\<close>

definition payload_part :: "jsval \<Rightarrow> jsstring" where
  "payload_part v = map url_char (b64_body (JSON_stringify v))"

definition signature_part :: "jsstring option \<Rightarrow> jsstring \<Rightarrow> jsstring" where
  "signature_part env data = map url_char (b64_body (signature_hex data (JWT_SECRET env)))"

definition token_of :: "jsstring option \<Rightarrow> jsstring \<Rightarrow> jsval \<Rightarrow> jsstring" where
  "token_of env h v =
     h @ [46] @ payload_part v @ [46] @ signature_part env (h @ [46] @ payload_part v)"

text \<open>
  What \<open>headers.set\<close> accepts, with the conditions of \<open>Headers_set\<close>, and the value it
  stores.
\<close>

definition header_value_ok :: "jsval \<Rightarrow> bool" where
  "header_value_ok v =
     (\<not> (\<exists>c \<in> set (ToString v). c > 255)
      \<and> \<not> (\<exists>c \<in> set (normalize_header_value (ToString v)). c = 0 \<or> c = 10 \<or> c = 13))"

definition header_value :: "jsval \<Rightarrow> jsstring" where
  "header_value v = normalize_header_value (ToString v)"

text \<open>Example tokens: what \<open>signToken\<close> mints at time 1700000000 for 24 hours.\<close>

definition minted_payload :: "jsstring \<Rightarrow> jsstring \<Rightarrow> jsval" where
  "minted_payload uid r =
     JObj [(js ''userId'', JStr uid), (js ''email'', JStr (js ''a@b.c'')), (js ''role'', JStr r),
           (js ''iat'', JNum 1700000000), (js ''exp'', JNum 1700086400)]"

definition minted_token :: "jsstring \<Rightarrow> jsstring \<Rightarrow> jsstring" where
  "minted_token uid r = token_of None (payload_part header) (minted_payload uid r)"

text \<open>A payload without timestamps.\<close>

definition bare_payload :: jsval where
  "bare_payload = JObj [(js ''userId'', JStr (js ''u1'')), (js ''email'', JStr (js ''a@b.c'')),
                        (js ''role'', JStr (js ''instructor''))]"

section \<open>Password hashing: the stored form is the bare digest\<close>

text \<open>The stored form of the password \<open>abc\<close>: the SHA-256 test vector of FIPS 180-4.\<close>

lemma hash_abc:
  "hash (js ''abc'') = js ''ba7816bf8f01cfea414140de5dae2223b00361a396177a9cb410ff61f20015ad''"
  by code_simp

lemma hex_digit_inj: "hex_digit a = hex_digit b \<Longrightarrow> a = b"
  by (auto simp: hex_digit_def split: if_splits)

lemma byte_hex_inj: "byte_hex a = byte_hex b \<Longrightarrow> a = b"
proof -
  assume "byte_hex a = byte_hex b"
  then have "a div 16 = b div 16" "a mod 16 = b mod 16"
    by (auto simp: byte_hex_def dest: hex_digit_inj)
  then show "a = b"
    by (metis div_mult_mod_eq)
qed

lemma uint8ArrayToHex_inj: "uint8ArrayToHex a = uint8ArrayToHex b \<Longrightarrow> a = b"
proof (induction a arbitrary: b)
  case Nil
  then show ?case by (cases b) (auto simp: uint8ArrayToHex_def byte_hex_def)
next
  case (Cons x xs)
  then obtain y ys where b: "b = y # ys"
    by (cases b) (auto simp: uint8ArrayToHex_def byte_hex_def)
  from Cons.prems b have "byte_hex x = byte_hex y" "uint8ArrayToHex xs = uint8ArrayToHex ys"
    by (auto simp: uint8ArrayToHex_def byte_hex_def)
  then show ?case using Cons.IH b by (auto dest: byte_hex_inj)
qed

text \<open>
  Claim C9, as the code has it. \<open>compare\<close> accepts the password that was hashed, and it
  accepts another password exactly when the SHA-256 digests of the two UTF-8 encodings
  coincide. The stored form is the hexadecimal digest of the password alone: there is no
  salt, so hashing the same password again gives the same stored form.
\<close>

theorem hash_compare_unsalted:
  "compare p (hash p)
   \<and> compare q (hash p) = (sha256 (TextEncoder_encode q) = sha256 (TextEncoder_encode p))
   \<and> hash p = uint8ArrayToHex (sha256 (TextEncoder_encode p))"
  by (auto simp: compare_def hash_def dest: uint8ArrayToHex_inj)

text \<open>
  Against C9 as stated: two calls of \<open>hash\<close> on \<open>correct-password\<close> do not differ, and
  two different passwords, each a surrogate without its partner, are accepted for one
  another, since \<open>TextEncoder\<close> writes both as U+FFFD.
\<close>

theorem hash_salted_counterexample:
  "\<not> (hash (js ''correct-password'') \<noteq> hash (js ''correct-password''))
   \<and> compare [55296] (hash [56320]) \<and> [55296::nat] \<noteq> [56320]"
  by (simp add: compare_def hash_def is_high_surrogate_def is_low_surrogate_def)

section \<open>Base64: decoding undoes encoding\<close>

lemma b64_val_char: "i < 64 \<Longrightarrow> b64_val (b64_char i) = Some i"
  by (auto simp: b64_val_def b64_char_def)

lemma b64_char_not_pad: "b64_char i \<noteq> 61"
  by (auto simp: b64_char_def)

lemma length_b64_body: "length (b64_body s) = (4 * length s + 2) div 3"
  by (induction s rule: b64_body.induct) simp_all

lemma length_b64_encode: "length (b64_encode s) mod 4 = 0"
  by (induction s rule: b64_encode.induct) simp_all

lemma remove_pad_encode: "remove_all 61 (b64_encode s) = b64_body s"
  by (induction s rule: b64_body.induct) (simp_all add: remove_all_def b64_char_not_pad)

lemma pad_notin_body: "61 \<notin> set (b64_body s)"
  by (induction s rule: b64_body.induct) (simp_all add: b64_char_not_pad)

lemma b64_encode_body:
  "\<exists>pad. b64_encode s = b64_body s @ pad \<and> (pad = [] \<or> pad = [61] \<or> pad = [61, 61])"
  by (induction s rule: b64_body.induct) auto


lemma b64_decode_body:
  "\<forall>x \<in> set s. x \<le> 255 \<Longrightarrow> b64_decode (map (\<lambda>c. the (b64_val c)) (b64_body s)) = s"
proof (induction s rule: b64_body.induct)
  case 1 show ?case by simp
next
  case (2 a)
  then have "a div 4 < 64" "a mod 4 * 16 < 64" by auto
  then show ?case by (simp add: b64_val_char)
next
  case (3 a b)
  then have "a div 4 < 64" "a mod 4 * 16 + b div 16 < 64" "b mod 16 * 4 < 64" by auto
  moreover have "a div 4 * 4 + (a mod 4 * 16 + b div 16) div 16 = a"
    "(a mod 4 * 16 + b div 16) mod 16 * 16 + b mod 16 * 4 div 4 = b"
    using 3 by auto
  ultimately show ?case by (simp add: b64_val_char)
next
  case (4 a b c r)
  then have "a div 4 < 64" "a mod 4 * 16 + b div 16 < 64" "b mod 16 * 4 + c div 64 < 64" "c mod 64 < 64"
    by auto
  moreover have "b64_decode (map (\<lambda>c. the (b64_val c)) (b64_body r)) = r" using 4 by simp
  moreover have "a div 4 * 4 + (a mod 4 * 16 + b div 16) div 16 = a"
    "(a mod 4 * 16 + b div 16) mod 16 * 16 + (b mod 16 * 4 + c div 64) div 4 = b"
    "(b mod 16 * 4 + c div 64) mod 4 * 64 + c mod 64 = c"
    using 4 by auto
  ultimately show ?case by (simp add: b64_val_char)
qed


lemma b64_body_valid:
  "\<forall>x \<in> set s. x \<le> 255 \<Longrightarrow> \<forall>c \<in> set (b64_body s). b64_val c \<noteq> None"
proof (induction s rule: b64_body.induct)
  case 1 show ?case by simp
next
  case (2 a)
  then have "a div 4 < 64" "a mod 4 * 16 < 64" by auto
  then show ?case by (simp add: b64_val_char)
next
  case (3 a b)
  then have "a div 4 < 64" "a mod 4 * 16 + b div 16 < 64" "b mod 16 * 4 < 64" by auto
  then show ?case by (simp add: b64_val_char)
next
  case (4 a b c r)
  then have "a div 4 < 64" "a mod 4 * 16 + b div 16 < 64" "b mod 16 * 4 + c div 64 < 64" "c mod 64 < 64"
    by auto
  moreover have "\<forall>c \<in> set (b64_body r). b64_val c \<noteq> None" using 4 by simp
  ultimately show ?case by (simp add: b64_val_char)
qed

lemma b64_val_not_ws: "b64_val c \<noteq> None \<Longrightarrow> \<not> is_ascii_whitespace c"
  by (auto simp: b64_val_def is_ascii_whitespace_def split: if_splits)

lemma pad4_fixed: "length s mod 4 = 0 \<Longrightarrow> pad4 s = s"
  by (subst pad4.simps) simp

lemma pad4_step: "length s mod 4 \<noteq> 0 \<Longrightarrow> pad4 s = pad4 (s @ [61])"
  by (subst pad4.simps) simp

lemma pad4_body: "pad4 (b64_body s) = b64_encode s"
proof -
  obtain pad where p: "b64_encode s = b64_body s @ pad" "pad = [] \<or> pad = [61] \<or> pad = [61, 61]"
    using b64_encode_body by blast
  have l: "length (b64_body s @ pad) mod 4 = 0"
    using length_b64_encode[of s] p(1) by simp
  from p(2) show ?thesis
  proof (elim disjE)
    assume "pad = []"
    then show ?thesis using l p(1) by (simp add: pad4_fixed)
  next
    assume e: "pad = [61]"
    then have "length (b64_body s) mod 4 \<noteq> 0" using l by (simp, presburger)
    then have "pad4 (b64_body s) = pad4 (b64_body s @ [61])" by (rule pad4_step)
    also have "\<dots> = b64_body s @ [61]" using l e by (simp add: pad4_fixed)
    finally show ?thesis using p(1) e by simp
  next
    assume e: "pad = [61, 61]"
    then have n1: "length (b64_body s) mod 4 \<noteq> 0" and n2: "length (b64_body s @ [61]) mod 4 \<noteq> 0"
      using l by (simp, presburger)+
    have "pad4 (b64_body s) = pad4 (b64_body s @ [61])" using n1 by (rule pad4_step)
    also have "\<dots> = pad4 ((b64_body s @ [61]) @ [61])" using n2 by (rule pad4_step)
    also have "\<dots> = b64_body s @ [61, 61]" using l e by (simp add: pad4_fixed)
    finally show ?thesis using p(1) e by simp
  qed
qed

lemma last_body_not_pad: "b64_body s \<noteq> [] \<Longrightarrow> last (b64_body s) \<noteq> 61"
  using pad_notin_body[of s] last_in_set by metis

lemma strip_padding_encode: "strip_padding (b64_encode s) = b64_body s"
proof -
  obtain pad where p: "b64_encode s = b64_body s @ pad" "pad = [] \<or> pad = [61] \<or> pad = [61, 61]"
    using b64_encode_body by blast
  have l: "length (b64_body s @ pad) mod 4 = 0"
    using length_b64_encode[of s] p(1) by simp
  from p(2) show ?thesis
  proof (elim disjE)
    assume e: "pad = []"
    show ?thesis
    proof (cases "b64_body s = []")
      case True
      then show ?thesis using p(1) e by (simp add: strip_padding_def)
    next
      case False
      then have "last (b64_body s) \<noteq> 61" by (rule last_body_not_pad)
      then show ?thesis using p(1) e by (simp add: strip_padding_def)
    qed
  next
    assume e: "pad = [61]"
    then have "b64_body s \<noteq> []" using l by auto
    then show ?thesis using p(1) e last_body_not_pad[of s] l
      by (simp add: strip_padding_def butlast_append)
  next
    assume e: "pad = [61, 61]"
    then show ?thesis using p(1) l
      by (simp add: strip_padding_def butlast_append)
  qed
qed

lemma atob_btoa: "btoa s = Inr b \<Longrightarrow> atob b = Inr s"
proof -
  assume a: "btoa s = Inr b"
  then have le: "\<forall>x \<in> set s. x \<le> 255" and b: "b = b64_encode s"
    by (auto simp: btoa_def split: if_splits)
  have v: "\<forall>c \<in> set (b64_body s). b64_val c \<noteq> None" using le by (rule b64_body_valid)
  obtain pad where p: "b64_encode s = b64_body s @ pad" "pad = [] \<or> pad = [61] \<or> pad = [61, 61]"
    using b64_encode_body by blast
  have "\<forall>c \<in> set (b64_encode s). \<not> is_ascii_whitespace c"
  proof
    fix c assume "c \<in> set (b64_encode s)"
    then have "c \<in> set (b64_body s) \<or> c = 61" using p by auto
    then show "\<not> is_ascii_whitespace c"
    proof
      assume "c \<in> set (b64_body s)"
      then have "b64_val c \<noteq> None" using v by blast
      then show ?thesis by (rule b64_val_not_ws)
    next
      assume "c = 61"
      then show ?thesis by (simp add: is_ascii_whitespace_def)
    qed
  qed
  then have f: "filter (\<lambda>c. \<not> is_ascii_whitespace c) (b64_encode s) = b64_encode s"
    by simp
  have "length (b64_body s) mod 4 \<noteq> 1"
    by (simp add: length_b64_body) presburger
  moreover have "\<not> (\<exists>c \<in> set (b64_body s). b64_val c = None)" using v by blast
  ultimately show "atob b = Inr s"
    using b64_decode_body[OF le]
    by (simp add: atob_def b f strip_padding_encode Let_def del: bex_simps)
qed


lemma url_char_back: "b64_val c \<noteq> None \<Longrightarrow>
    (if url_char c = 45 then 43 else if url_char c = 95 then 47 else url_char c) = c"
  by (auto simp: url_char_def b64_val_def split: if_splits)

lemma replace_url: "replace_all 47 95 (replace_all 43 45 s) = map url_char s"
  by (simp add: replace_all_def url_char_def)

lemma remove_map_url: "remove_all 61 (map url_char s) = map url_char (remove_all 61 s)"
  by (induction s) (auto simp: remove_all_def url_char_def)

lemma base64UrlEncode_eq:
  "\<forall>x \<in> set s. x \<le> 255 \<Longrightarrow> base64UrlEncode s = Inr (map url_char (b64_body s))"
  by (simp add: base64UrlEncode_def btoa_def replace_url remove_map_url remove_pad_encode)

lemma base64UrlEncode_fails:
  "\<not> (\<forall>x \<in> set s. x \<le> 255) \<Longrightarrow> base64UrlEncode s = Inl (DOMException ''InvalidCharacterError'')"
  by (simp add: base64UrlEncode_def btoa_def)

lemma url_unreplace:
  "\<forall>c \<in> set t. b64_val c \<noteq> None \<Longrightarrow> replace_all 95 47 (replace_all 45 43 (map url_char t)) = t"
proof (induction t)
  case Nil show ?case by (simp add: replace_all_def)
next
  case (Cons c t)
  then have "b64_val c \<noteq> None" by simp
  then have "(if url_char c = 45 then 43 else if url_char c = 95 then 47 else url_char c) = c"
    by (rule url_char_back)
  moreover have "url_char c \<noteq> 43" by (simp add: url_char_def)
  ultimately show ?case using Cons by (auto simp: replace_all_def split: if_splits)
qed

lemma base64Url_roundtrip:
  assumes "base64UrlEncode s = Inr e"
  shows "base64UrlDecode e = Inr s"
proof -
  from assms have le: "\<forall>x \<in> set s. x \<le> 255"
    by (auto simp: base64UrlEncode_def btoa_def split: if_splits)
  then have e: "e = map url_char (b64_body s)" using assms by (simp add: base64UrlEncode_eq)
  have v: "\<forall>c \<in> set (b64_body s). b64_val c \<noteq> None" using le by (rule b64_body_valid)
  have "btoa s = Inr (b64_encode s)" using le by (simp add: btoa_def)
  then have "atob (b64_encode s) = Inr s" by (rule atob_btoa)
  then show ?thesis
    by (simp add: base64UrlDecode_def e url_unreplace[OF v] pad4_body)
qed

section \<open>The shape of digests and signatures\<close>


lemma length_sha_round: "length (sha_round s kw) = length s"
  by (cases "(s, kw)" rule: sha_round.cases) (auto simp: Let_def)

lemma length_foldl_sha_round: "length (foldl sha_round s kws) = length s"
  by (induction kws arbitrary: s) (simp_all add: length_sha_round)

lemma length_sha_compress: "length (sha_compress hs b) = length hs"
  by (simp add: sha_compress_def length_foldl_sha_round)

lemma length_sha_blocks: "length (sha_blocks hs ws) = length hs"
proof (induction hs ws rule: sha_blocks.induct)
  case (1 hs ws)
  show ?case
  proof (cases "length ws < 16")
    case True
    then show ?thesis by (subst sha_blocks.simps) simp
  next
    case False
    then have "sha_blocks hs ws = sha_blocks (sha_compress hs (take 16 ws)) (drop 16 ws)"
      by (subst sha_blocks.simps) simp
    then show ?thesis using 1 False by (simp add: length_sha_compress)
  qed
qed

lemma length_be_bytes: "length (be_bytes k n) = k"
  by (simp add: be_bytes_def)

lemma be_bytes_lt: "b \<in> set (be_bytes k n) \<Longrightarrow> b < 256"
  by (auto simp: be_bytes_def)

lemma length_concat_be: "length (concat (map (\<lambda>w. be_bytes 4 (f w)) ws)) = 4 * length ws"
  by (induction ws) (simp_all add: length_be_bytes)

lemma length_sha256: "length (sha256 m) = 32"
  by (simp add: sha256_def length_concat_be length_sha_blocks sha_H0_def)

lemma sha256_lt: "b \<in> set (sha256 m) \<Longrightarrow> b < 256"
  by (auto simp: sha256_def dest: be_bytes_lt)

lemma length_hmac: "length (hmac_sha256 k m) = 32"
  by (simp add: hmac_sha256_def Let_def length_sha256)

lemma hmac_lt: "b \<in> set (hmac_sha256 k m) \<Longrightarrow> b < 256"
  by (auto simp: hmac_sha256_def Let_def dest: sha256_lt)

lemma length_hex: "length (uint8ArrayToHex a) = 2 * length a"
  by (induction a) (simp_all add: uint8ArrayToHex_def byte_hex_def)

lemma hex_le: "\<forall>b \<in> set a. b < 256 \<Longrightarrow> \<forall>c \<in> set (uint8ArrayToHex a). c \<le> 255"
  by (induction a) (auto simp: uint8ArrayToHex_def byte_hex_def hex_digit_def)

lemma TextEncoder_nonempty: "s \<noteq> [] \<Longrightarrow> TextEncoder_encode s \<noteq> []"
  by (cases s rule: TextEncoder_encode.cases) (auto simp: utf8_1_def utf8_2_def utf8_3_def utf8_4_def)

lemma signature_hex_le: "\<forall>c \<in> set (signature_hex data secret). c \<le> 255"
  unfolding signature_hex_def by (rule hex_le) (auto dest: hmac_lt)

lemma length_signature_hex: "length (signature_hex data secret) = 64"
  by (simp add: signature_hex_def length_hex length_hmac)

lemma createSignature_eq:
  "secret \<noteq> [] \<Longrightarrow>
   createSignature data secret = Inr (map url_char (b64_body (signature_hex data secret)))"
  using base64UrlEncode_eq[OF signature_hex_le[of data secret]]
  by (simp add: createSignature_def Let_def TextEncoder_nonempty signature_hex_def)

lemma length_createSignature:
  "createSignature data secret = Inr sig \<Longrightarrow> length sig = 86"
proof (cases "secret = []")
  case True
  assume "createSignature data secret = Inr sig"
  then show ?thesis using True by (simp add: createSignature_def)
next
  case False
  assume "createSignature data secret = Inr sig"
  then show ?thesis using createSignature_eq[OF False, of data]
    by (auto simp: length_b64_body length_signature_hex)
qed

lemma JWT_SECRET_nonempty: "JWT_SECRET env \<noteq> []"
  by (auto simp: JWT_SECRET_def js_def split: option.splits)

lemma split_ab: "split 46 (js ''a.b'') = [[97], [98]]" by (simp add: js_def)
lemma split_abc: "split 46 (js ''a.b.c'') = [[97], [98], [99]]" by (simp add: js_def)

section \<open>JSON: parsing undoes writing\<close>

lemma hex4_value:
  "((c div 4096 * 16 + c div 256 mod 16) * 16 + c div 16 mod 16) * 16 + c mod 16 = (c::nat)"
proof -
  have d2: "c div 256 = c div 16 div 16" by (simp add: div_mult2_eq[symmetric])
  have d3: "c div 4096 = c div 256 div 16" by (simp add: div_mult2_eq[symmetric])
  have e3: "c div 4096 * 16 + c div 256 mod 16 = c div 256"
    unfolding d3 by (rule div_mult_mod_eq)
  have e2: "c div 256 * 16 + c div 16 mod 16 = c div 16"
    unfolding d2 by (rule div_mult_mod_eq)
  have e1: "c div 16 * 16 + c mod 16 = c" by (rule div_mult_mod_eq)
  show ?thesis by (simp only: e3 e2 e1)
qed

lemma hexval_hex_digit: "d < 16 \<Longrightarrow> hexval (hex_digit d) = Some d"
  by (auto simp: hexval_def hex_digit_def)

lemma parse_hex4_hex4:
  assumes "c < 65536"
  shows "parse_hex4 (hex_digit (c div 4096 mod 16)) (hex_digit (c div 256 mod 16))
           (hex_digit (c div 16 mod 16)) (hex_digit (c mod 16)) = Some c"
proof -
  have lt: "c div 4096 < 16" using assms by simp
  then have m: "c div 4096 mod 16 = c div 4096" by simp
  have h1: "hexval (hex_digit (c div 4096 mod 16)) = Some (c div 4096)"
    unfolding m using lt by (rule hexval_hex_digit)
  have h2: "hexval (hex_digit (c div 256 mod 16)) = Some (c div 256 mod 16)"
    by (rule hexval_hex_digit) simp
  have h3: "hexval (hex_digit (c div 16 mod 16)) = Some (c div 16 mod 16)"
    by (rule hexval_hex_digit) simp
  have h4: "hexval (hex_digit (c mod 16)) = Some (c mod 16)"
    by (rule hexval_hex_digit) simp
  show ?thesis
    unfolding parse_hex4_def
    by (simp only: h1 h2 h3 h4 prod.case option.case hex4_value)
qed


lemma parse_short_escape:
  "simple_escape e = Some u \<Longrightarrow> e \<noteq> 117 \<Longrightarrow>
   parse_string_body (92 # e # r) = cons_result u (parse_string_body r)"
  by simp

lemma parse_plain:
  "32 \<le> c \<Longrightarrow> c \<noteq> 34 \<Longrightarrow> c \<noteq> 92 \<Longrightarrow>
   parse_string_body (c # e # r) = cons_result c (parse_string_body (e # r))"
  by simp

lemma parse_unicode_escape:
  assumes "c < 65536"
  shows "parse_string_body ([92, 117] @ hex4 c @ r) = cons_result c (parse_string_body r)"
proof -
  have "parse_string_body ([92, 117] @ hex4 c @ r)
        = (case parse_hex4 (hex_digit (c div 4096 mod 16)) (hex_digit (c div 256 mod 16))
                  (hex_digit (c div 16 mod 16)) (hex_digit (c mod 16)) of
             None \<Rightarrow> None | Some u \<Rightarrow> cons_result u (parse_string_body r))"
    unfolding hex4_def by (simp del: mod_less)
  then show ?thesis by (simp only: parse_hex4_hex4[OF assms] option.case)
qed

lemma parse_escape1:
  assumes "t \<noteq> []"
  shows "parse_string_body (json_escape1 c @ t) = cons_result c (parse_string_body t)"
proof -
  obtain e r where t: "t = e # r" using assms(1) by (cases t) auto
  consider "c = 8" | "c = 9" | "c = 10" | "c = 12" | "c = 13" | "c = 34" | "c = 92"
    | "c \<notin> {8, 9, 10, 12, 13, 34, 92}" "c < 32 \<or> is_high_surrogate c \<or> is_low_surrogate c"
    | "c \<notin> {8, 9, 10, 12, 13, 34, 92}" "\<not> (c < 32 \<or> is_high_surrogate c \<or> is_low_surrogate c)"
    by blast
  then show ?thesis
  proof cases
    case 1 then show ?thesis by (simp add: json_escape1_def parse_short_escape simple_escape_def)
  next
    case 2 then show ?thesis by (simp add: json_escape1_def parse_short_escape simple_escape_def)
  next
    case 3 then show ?thesis by (simp add: json_escape1_def parse_short_escape simple_escape_def)
  next
    case 4 then show ?thesis by (simp add: json_escape1_def parse_short_escape simple_escape_def)
  next
    case 5 then show ?thesis by (simp add: json_escape1_def parse_short_escape simple_escape_def)
  next
    case 6 then show ?thesis by (simp add: json_escape1_def parse_short_escape simple_escape_def)
  next
    case 7 then show ?thesis by (simp add: json_escape1_def parse_short_escape simple_escape_def)
  next
    case 8
    then have "c < 65536" by (auto simp: is_high_surrogate_def is_low_surrogate_def)
    then have "parse_string_body ([92, 117] @ hex4 c @ t) = cons_result c (parse_string_body t)"
      by (rule parse_unicode_escape)
    moreover have "json_escape1 c = [92, 117] @ hex4 c" using 8 by (simp add: json_escape1_def)
    ultimately show ?thesis by (simp only: append_assoc)
  next
    case 9
    then have "json_escape1 c = [c]" by (simp add: json_escape1_def)
    moreover have "parse_string_body (c # e # r) = cons_result c (parse_string_body (e # r))"
      using 9 by (intro parse_plain) auto
    ultimately show ?thesis by (simp only: t append_Cons append_Nil)
  qed
qed

lemma parse_quote: "parse_string_body (34 # rest) = Some ([], rest)"
  by (cases rest) simp_all

lemma parse_string_body_escape:
  "parse_string_body (json_escape s @ 34 # rest) = Some (s, rest)"
proof (induction s rule: json_escape.induct)
  case 1
  show ?case by (simp add: parse_quote)
next
  case (2 c)
  have "parse_string_body (json_escape1 c @ 34 # rest) = cons_result c (parse_string_body (34 # rest))"
    by (rule parse_escape1) simp
  then show ?case by (simp add: parse_quote cons_result_def)
next
  case (3 c d cs)
  show ?case
  proof (cases "is_high_surrogate c \<and> is_low_surrogate d")
    case True
    obtain e r where t: "json_escape cs @ 34 # rest = e # r"
      by (cases "json_escape cs @ 34 # rest") auto
    have ih: "parse_string_body (e # r) = Some (cs, rest)"
      using 3(1)[OF True] t by simp
    have pd: "parse_string_body (d # e # r) = cons_result d (parse_string_body (e # r))"
      using True by (intro parse_plain) (auto simp: is_low_surrogate_def)
    have pc: "parse_string_body (c # d # e # r) = cons_result c (parse_string_body (d # e # r))"
      using True by (intro parse_plain) (auto simp: is_high_surrogate_def)
    have "json_escape (c # d # cs) @ 34 # rest = c # d # e # r"
      using True t by simp
    then show ?thesis by (simp only: pc pd ih) (simp add: cons_result_def)
  next
    case False
    have je: "json_escape (c # d # cs) @ 34 # rest = json_escape1 c @ (json_escape (d # cs) @ 34 # rest)"
      using False by auto
    have "parse_string_body (json_escape1 c @ (json_escape (d # cs) @ 34 # rest))
          = cons_result c (parse_string_body (json_escape (d # cs) @ 34 # rest))"
      by (rule parse_escape1) simp
    also have "\<dots> = cons_result c (Some (d # cs, rest))"
      using 3(2)[OF False] by simp
    finally show ?thesis by (simp only: je) (simp add: cons_result_def)
  qed
qed

lemma skip_ws_quote: "skip_ws (34 # r) = 34 # r"
  by (simp add: skip_ws_def is_json_ws_def)

lemma parse_value_string:
  "parse_value (Suc n) (QuoteJSONString s @ rest) = Some (JStr s, rest)"
  by (simp add: parse_value.simps QuoteJSONString_def skip_ws_quote parse_string_body_escape)

lemma dec_nat_small: "n < 10 \<Longrightarrow> dec_nat n = [48 + n]"
  by (subst dec_nat.simps) simp

lemma dec_nat_big: "\<not> n < 10 \<Longrightarrow> dec_nat n = dec_nat (n div 10) @ [48 + n mod 10]"
  by (subst dec_nat.simps) simp

lemma dec_nat_nonempty: "dec_nat n \<noteq> []"
  by (cases "n < 10") (simp_all add: dec_nat_small dec_nat_big)

lemma dec_nat_digits: "c \<in> set (dec_nat n) \<Longrightarrow> is_digit c"
proof (induction n arbitrary: c rule: dec_nat.induct)
  case (1 n)
  show ?case
  proof (cases "n < 10")
    case True
    then show ?thesis using 1(2) by (simp add: dec_nat_small is_digit_def)
  next
    case False
    have "n mod 10 < 10" by simp
    then have "is_digit (48 + n mod 10)" unfolding is_digit_def by linarith
    then show ?thesis using 1 False by (auto simp: dec_nat_big)
  qed
qed

lemma hd_dec_nat: "0 < n \<Longrightarrow> hd (dec_nat n) \<noteq> 48"
proof (induction n rule: dec_nat.induct)
  case (1 n)
  show ?case
  proof (cases "n < 10")
    case True
    then show ?thesis using 1(2) by (simp add: dec_nat_small)
  next
    case False
    then have "0 < n div 10" by simp
    then have "hd (dec_nat (n div 10)) \<noteq> 48" using 1(1) False by simp
    then show ?thesis using False by (simp add: dec_nat_big dec_nat_nonempty)
  qed
qed

lemma digits_value_snoc: "digits_value (xs @ [d]) = 10 * digits_value xs + (d - 48)"
  by (simp add: digits_value_def)

lemma digits_value_dec_nat: "digits_value (dec_nat n) = n"
proof (induction n rule: dec_nat.induct)
  case (1 n)
  show ?case
  proof (cases "n < 10")
    case True
    then show ?thesis by (simp add: dec_nat_small digits_value_def)
  next
    case False
    then show ?thesis using 1 by (simp add: dec_nat_big digits_value_snoc)
  qed
qed

lemma takeWhile_dec_nat:
  assumes "\<not> is_digit c"
  shows "takeWhile is_digit (dec_nat n @ c # r) = dec_nat n"
  using assms dec_nat_digits by (simp add: takeWhile_append2 del: dec_nat.simps)

lemma parse_number_nat:
  assumes "\<not> is_digit c" "c \<noteq> 46" "c \<noteq> 101" "c \<noteq> 69"
  shows "parse_number (dec_nat n @ c # r) = Some (JNum (int n), c # r)"
proof -
  obtain d ds where d: "dec_nat n = d # ds" using dec_nat_nonempty by (cases "dec_nat n") auto
  have dig: "is_digit d" using dec_nat_digits[of d n] d by simp
  then have d45: "d \<noteq> 45" by (auto simp: is_digit_def)
  show ?thesis
  proof (cases "n = 0")
    case True
    then show ?thesis using assms by (simp add: dec_nat_small parse_number_def digits_value_def)
  next
    case False
    then have "hd (dec_nat n) \<noteq> 48" using hd_dec_nat by simp
    then have d48: "d \<noteq> 48" using d by simp
    have tw: "takeWhile is_digit (d # ds @ c # r) = d # ds"
      using takeWhile_dec_nat[OF assms(1), of n r] d by simp
    have dv: "digits_value (d # ds) = n" using digits_value_dec_nat[of n] d by simp
    show ?thesis using assms d45 d48
      by (simp add: parse_number_def d Let_def tw dv del: takeWhile.simps)
  qed
qed

lemma parse_number_int:
  assumes "\<not> is_digit c" "c \<noteq> 46" "c \<noteq> 101" "c \<noteq> 69"
  shows "parse_number (Number_toString i @ c # r) = Some (JNum i, c # r)"
proof (cases "i < 0")
  case False
  then show ?thesis using parse_number_nat[OF assms, of "nat i" r]
    by (simp add: Number_toString_def)
next
  case True
  let ?m = "nat (- i)"
  obtain d ds where d: "dec_nat ?m = d # ds" using dec_nat_nonempty by (cases "dec_nat ?m") auto
  have "0 < ?m" using True by simp
  then have "hd (dec_nat ?m) \<noteq> 48" by (rule hd_dec_nat)
  then have d48: "d \<noteq> 48" using d by simp
  have tw: "takeWhile is_digit (d # ds @ c # r) = d # ds"
    using takeWhile_dec_nat[OF assms(1), of ?m r] d by simp
  have dv: "digits_value (d # ds) = ?m" using digits_value_dec_nat[of ?m] d by simp
  show ?thesis using assms d48 True
    by (simp add: Number_toString_def parse_number_def d Let_def tw dv del: takeWhile.simps)
qed

lemma Number_toString_head:
  "\<exists>d ds. Number_toString i = d # ds \<and> (d = 45 \<or> is_digit d)"
proof (cases "i < 0")
  case True
  then show ?thesis by (simp add: Number_toString_def)
next
  case False
  obtain d ds where d: "dec_nat (nat i) = d # ds"
    using dec_nat_nonempty by (cases "dec_nat (nat i)") auto
  then have "is_digit d" using dec_nat_digits[of d "nat i"] by simp
  then show ?thesis using False d by (simp add: Number_toString_def)
qed

lemma parse_value_number:
  assumes "c = 44 \<or> c = 125"
  shows "parse_value (Suc n) (Number_toString i @ c # r) = Some (JNum i, c # r)"
proof -
  obtain d ds where d: "Number_toString i = d # ds" "d = 45 \<or> is_digit d"
    using Number_toString_head by blast
  have c: "\<not> is_digit c" "c \<noteq> 46" "c \<noteq> 101" "c \<noteq> 69"
    using assms by (auto simp: is_digit_def)
  have pn: "parse_number (d # ds @ c # r) = Some (JNum i, c # r)"
    using parse_number_int[OF c, of i r] d(1) by simp
  have nws: "\<not> is_json_ws d" using d(2) by (auto simp: is_json_ws_def is_digit_def)
  have nd: "d \<noteq> 123" "d \<noteq> 91" "d \<noteq> 34" using d(2) by (auto simp: is_digit_def)
  show ?thesis using nws nd d(2) pn
    by (simp add: parse_value.simps d(1) skip_ws_def)
qed


lemma parse_value_simple:
  assumes "is_simple v" "c = 44 \<or> c = 125"
  shows "parse_value (Suc n) (JSON_stringify v @ c # r) = Some (v, c # r)"
proof (cases v)
  case (JStr s)
  then show ?thesis using parse_value_string[of n s "c # r"] by simp
next
  case (JNum i)
  then show ?thesis using parse_value_number[OF assms(2), of n i r] by simp
qed (use assms in simp_all)

lemma skip_ws_id: "\<not> is_json_ws c \<Longrightarrow> skip_ws (c # r) = c # r"
  by (simp add: skip_ws_def)

lemma parse_member:
  assumes "is_simple (snd kv)" "c = 44 \<or> c = 125"
  shows "parse_members (Suc (Suc n)) acc (member_text kv @ c # r) =
         (if c = 44 then parse_members (Suc n) (acc @ [kv]) r
          else Some (JObj (acc @ [kv]), r))"
proof -
  obtain k v where kv: "kv = (k, v)" by (cases kv)
  have t: "member_text kv @ c # r = 34 # (json_escape k @ 34 # (58 # (JSON_stringify v @ c # r)))"
    by (simp add: member_text_def kv QuoteJSONString_def)
  have ws: "skip_ws (34 # (json_escape k @ 34 # (58 # (JSON_stringify v @ c # r))))
            = 34 # (json_escape k @ 34 # (58 # (JSON_stringify v @ c # r)))"
    by (rule skip_ws_id) (simp add: is_json_ws_def)
  have ps: "parse_string_body (json_escape k @ 34 # (58 # (JSON_stringify v @ c # r)))
            = Some (k, 58 # (JSON_stringify v @ c # r))"
    by (rule parse_string_body_escape)
  have ws2: "skip_ws (58 # (JSON_stringify v @ c # r)) = 58 # (JSON_stringify v @ c # r)"
    by (rule skip_ws_id) (simp add: is_json_ws_def)
  have pv: "parse_value (Suc n) (JSON_stringify v @ c # r) = Some (v, c # r)"
    using assms kv by (intro parse_value_simple) simp_all
  have ws3: "skip_ws (c # r) = c # r"
    using assms(2) by (intro skip_ws_id) (auto simp: is_json_ws_def)
  show ?thesis
    unfolding t
    by (subst parse_members.simps) (use assms(2) in \<open>auto simp add: ws ps ws2 pv ws3 kv\<close>)
qed

lemma join_cons2: "xs \<noteq> [] \<Longrightarrow> join sep (x # xs) = x @ sep @ join sep xs"
  by (cases xs) simp_all

lemma parse_members_list:
  "kvs \<noteq> [] \<Longrightarrow> \<forall>kv \<in> set kvs. is_simple (snd kv) \<Longrightarrow> length kvs < m \<Longrightarrow>
   parse_members m acc (join [44] (map member_text kvs) @ 125 # rest) = Some (JObj (acc @ kvs), rest)"
proof (induction kvs arbitrary: m acc)
  case Nil
  then show ?case by simp
next
  case (Cons kv kvs)
  define n where "n = m - 2"
  have m: "m = Suc (Suc n)" using Cons.prems(3) by (simp add: n_def)
  have s: "is_simple (snd kv)" using Cons.prems(2) by simp
  show ?case
  proof (cases "kvs = []")
    case True
    have "parse_members (Suc (Suc n)) acc (member_text kv @ 125 # rest)
          = Some (JObj (acc @ [kv]), rest)"
      using parse_member[OF s, of 125 n acc rest] by simp
    then show ?thesis using True m by simp
  next
    case False
    have j: "join [44] (map member_text (kv # kvs)) @ 125 # rest
             = member_text kv @ 44 # (join [44] (map member_text kvs) @ 125 # rest)"
      using False by (simp add: join_cons2)
    have "parse_members (Suc (Suc n)) acc
            (member_text kv @ 44 # (join [44] (map member_text kvs) @ 125 # rest))
          = parse_members (Suc n) (acc @ [kv]) (join [44] (map member_text kvs) @ 125 # rest)"
      using parse_member[OF s, of 44 n acc] by simp
    also have "\<dots> = Some (JObj ((acc @ [kv]) @ kvs), rest)"
      using Cons.prems m False by (intro Cons.IH) simp_all
    finally show ?thesis unfolding j m by simp
  qed
qed

lemma member_text_head: "\<exists>r. member_text kv = 34 # r"
  by (simp add: member_text_def QuoteJSONString_def)

lemma join_members_head:
  assumes "kvs \<noteq> []"
  shows "\<exists>r. join [44] (map member_text kvs) @ t = 34 # r"
proof -
  obtain kv ks where k: "kvs = kv # ks" using assms by (cases kvs) auto
  obtain r where r: "member_text kv = 34 # r" using member_text_head by blast
  show ?thesis by (cases ks) (simp_all add: k r)
qed

lemma length_join_members: "length kvs \<le> length (join [44] (map member_text kvs))"
proof (induction kvs)
  case Nil show ?case by simp
next
  case (Cons kv kvs)
  obtain r where r: "member_text kv = 34 # r" using member_text_head by blast
  show ?case using Cons by (cases kvs) (simp_all add: r)
qed

lemma stringify_object:
  "\<forall>kv \<in> set kvs. is_simple (snd kv) \<Longrightarrow>
   JSON_stringify (JObj kvs) = 123 # join [44] (map member_text kvs) @ [125]"
proof -
  assume a: "\<forall>kv \<in> set kvs. is_simple (snd kv)"
  then have "\<forall>kv \<in> set kvs. snd kv \<noteq> JUndefined" by auto
  then have "filter (\<lambda>kv. snd kv \<noteq> JUndefined) kvs = kvs" by simp
  moreover have "(\<lambda>kv. QuoteJSONString (fst kv) @ 58 # JSON_stringify (snd kv)) = member_text"
    by (rule ext) (simp add: member_text_def)
  ultimately show ?thesis by simp
qed

lemma parse_value_object:
  assumes "kvs \<noteq> []" "\<forall>kv \<in> set kvs. is_simple (snd kv)" "length kvs < f"
  shows "parse_value (Suc f) (123 # join [44] (map member_text kvs) @ 125 # rest)
         = Some (JObj kvs, rest)"
proof -
  obtain r where r: "join [44] (map member_text kvs) @ 125 # rest = 34 # r"
    using join_members_head[OF assms(1)] by blast
  have "parse_members f [] (join [44] (map member_text kvs) @ 125 # rest)
        = Some (JObj ([] @ kvs), rest)"
    using assms by (rule parse_members_list)
  then have pm: "parse_members f [] (34 # r) = Some (JObj kvs, rest)"
    by (simp only: r append_Nil)
  have ws1: "skip_ws (123 # 34 # r) = 123 # 34 # r"
    by (rule skip_ws_id) (simp add: is_json_ws_def)
  have ws2: "skip_ws (34 # r) = 34 # r"
    by (rule skip_ws_id) (simp add: is_json_ws_def)
  have "parse_value (Suc f) (123 # 34 # r) = Some (JObj kvs, rest)"
    by (subst parse_value.simps) (simp add: ws1 ws2 pm)
  then show ?thesis by (simp only: r)
qed

lemma JSON_parse_stringify_object:
  assumes "kvs \<noteq> []" "\<forall>kv \<in> set kvs. is_simple (snd kv)"
  shows "JSON_parse (JSON_stringify (JObj kvs)) = Inr (JObj kvs)"
proof -
  let ?body = "join [44] (map member_text kvs)"
  let ?s = "123 # ?body @ 125 # []"
  have f: "2 * length ?s + 2 = Suc (2 * length ?s + 1)" by simp
  have lt: "length kvs < 2 * length ?s + 1" using length_join_members[of kvs] by simp
  have pv: "parse_value (Suc (2 * length ?s + 1)) ?s = Some (JObj kvs, [])"
    using assms lt by (rule parse_value_object)
  have st: "JSON_stringify (JObj kvs) = ?s"
    using stringify_object[OF assms(2)] by simp
  show ?thesis
    unfolding JSON_parse_def st f pv by (simp add: skip_ws_def)
qed

section \<open>The codec and the signature\<close>

text \<open>
  Claim C6, as the code has it. \<open>base64UrlEncode\<close> works on code units: of a text whose
  code units are all at most 255 it returns an encoding that \<open>base64UrlDecode\<close> turns back
  into the text; on any other text it throws InvalidCharacterError. No UTF-8 serialization
  takes place.
\<close>

theorem base64Url_codec:
  "(if \<forall>c \<in> set s. c \<le> 255
    then \<exists>e. base64UrlEncode s = Inr e \<and> base64UrlDecode e = Inr s
    else base64UrlEncode s = Inl (DOMException ''InvalidCharacterError''))"
proof (cases "\<forall>c \<in> set s. c \<le> 255")
  case True
  then have "base64UrlEncode s = Inr (map url_char (b64_body s))" by (rule base64UrlEncode_eq)
  then show ?thesis using True base64Url_roundtrip by auto
next
  case False
  then show ?thesis using base64UrlEncode_fails[OF False] by simp
qed

theorem base64Url_codec_witness:
  "(104::nat) \<le> 255 \<and> (233::nat) \<le> 255
   \<and> (\<exists>e. base64UrlEncode [104, 233] = Inr e \<and> base64UrlDecode e = Inr [104, 233])"
  using base64Url_codec[of "[104, 233]"] by simp

text \<open>
  Against C6 as stated: the JSON text of an object whose e-mail is the Greek
  capital omega (U+03A9, code unit 937) is not encoded.
\<close>

theorem base64Url_unicode_counterexample:
  "base64UrlEncode (JSON_stringify (JObj [(js ''email'', JStr [937])]))
   = Inl (DOMException ''InvalidCharacterError'')"
proof -
  have "937 \<in> set (JSON_stringify (JObj [(js ''email'', JStr [937])]))"
    by (simp add: QuoteJSONString_def json_escape1_def is_high_surrogate_def is_low_surrogate_def)
  then have "\<not> (\<forall>x \<in> set (JSON_stringify (JObj [(js ''email'', JStr [937])])). x \<le> 255)"
    by force
  then show ?thesis by (rule base64UrlEncode_fails)
qed

text \<open>
  Claim C5, as the code has it. The signature is the base64url encoding of the
  hexadecimal text of the MAC: 86 characters that decode to the 64 hexadecimal digits.
\<close>

theorem createSignature_hex_then_base64:
  "\<exists>sig. createSignature data (JWT_SECRET env) = Inr sig \<and> length sig = 86
     \<and> base64UrlDecode sig =
         Inr (uint8ArrayToHex (hmac_sha256 (TextEncoder_encode (JWT_SECRET env))
                                            (TextEncoder_encode data)))"
proof -
  let ?hex = "signature_hex data (JWT_SECRET env)"
  have e: "base64UrlEncode ?hex = Inr (map url_char (b64_body ?hex))"
    using signature_hex_le by (rule base64UrlEncode_eq)
  then have "base64UrlDecode (map url_char (b64_body ?hex)) = Inr ?hex"
    by (rule base64Url_roundtrip)
  moreover have "createSignature data (JWT_SECRET env) = Inr (map url_char (b64_body ?hex))"
    using JWT_SECRET_nonempty by (rule createSignature_eq)
  ultimately show ?thesis
    by (simp add: length_b64_body signature_hex_def length_hex length_hmac)
qed

text \<open>
  Against C5 as stated: the signature of \<open>a.b\<close> under the default secret is not the
  base64url encoding of the MAC bytes themselves.
\<close>

theorem createSignature_raw_counterexample:
  "createSignature (js ''a.b'') (JWT_SECRET None)
   \<noteq> base64UrlEncode (hmac_sha256 (TextEncoder_encode (JWT_SECRET None))
                                   (TextEncoder_encode (js ''a.b'')))"
proof
  let ?mac = "hmac_sha256 (TextEncoder_encode (JWT_SECRET None)) (TextEncoder_encode (js ''a.b''))"
  assume a: "createSignature (js ''a.b'') (JWT_SECRET None) = base64UrlEncode ?mac"
  have "\<forall>b \<in> set ?mac. b \<le> 255" using hmac_lt by fastforce
  then have r: "base64UrlEncode ?mac = Inr (map url_char (b64_body ?mac))"
    by (rule base64UrlEncode_eq)
  then have "length (map url_char (b64_body ?mac)) = 86"
    using a length_createSignature by metis
  then show False by (simp add: length_b64_body length_hmac)
qed

section \<open>Tokens: minting, validating, and the middleware\<close>

lemma split_no_sep: "sep \<notin> set s \<Longrightarrow> split sep s = [s]"
  by (induction s) auto

lemma split_append: "sep \<notin> set h \<Longrightarrow> split sep (h @ sep # t) = h # split sep t"
  by (induction h) auto

lemma split_three:
  "46 \<notin> set h \<Longrightarrow> 46 \<notin> set p \<Longrightarrow> 46 \<notin> set sg \<Longrightarrow>
   split 46 (h @ [46] @ p @ [46] @ sg) = [h, p, sg]"
  by (simp add: split_append split_no_sep)

lemma url_b64_not_dot: "url_char (b64_char i) \<noteq> 46"
  by (auto simp: url_char_def b64_char_def)

lemma b64_body_range: "c \<in> set (b64_body s) \<Longrightarrow> \<exists>i. c = b64_char i"
  by (induction s rule: b64_body.induct) auto

lemma no_dot_url: "46 \<notin> set (map url_char (b64_body s))"
  using b64_body_range url_b64_not_dot by fastforce

lemma latin1_append [simp]: "latin1 (a @ b) = (latin1 a \<and> latin1 b)"
  by (auto simp: latin1_def)

lemma latin1_Cons [simp]: "latin1 (c # s) = (c \<le> 255 \<and> latin1 s)"
  by (auto simp: latin1_def)

lemma latin1_Nil [simp]: "latin1 []"
  by (simp add: latin1_def)

lemma hex_digit_le: "d < 16 \<Longrightarrow> hex_digit d \<le> 255"
  by (simp add: hex_digit_def)

lemma latin1_hex4: "latin1 (hex4 c)"
  by (simp add: hex4_def hex_digit_le)

lemma latin1_escape1: "c \<le> 255 \<Longrightarrow> latin1 (json_escape1 c)"
  by (simp add: json_escape1_def latin1_hex4)

lemma latin1_escape: "latin1 s \<Longrightarrow> latin1 (json_escape s)"
  by (induction s rule: json_escape.induct) (simp_all add: latin1_escape1)

lemma latin1_quote: "latin1 s \<Longrightarrow> latin1 (QuoteJSONString s)"
  by (simp add: QuoteJSONString_def latin1_escape)

lemma latin1_dec_nat: "latin1 (dec_nat n)"
  using dec_nat_digits by (fastforce simp: latin1_def is_digit_def)

lemma latin1_number: "latin1 (Number_toString i)"
  by (simp add: Number_toString_def latin1_dec_nat)

lemma of_char_le: "of_char c \<le> (255::nat)"
proof -
  have "of_char c mod 256 = (of_char c :: nat)" by (rule of_char_mod_256)
  moreover have "of_char c mod 256 < (256::nat)" by simp
  ultimately show ?thesis by linarith
qed

lemma latin1_js: "latin1 (js s)"
  by (simp add: latin1_def js_def of_char_le)

lemma latin1_member:
  "latin1 (fst kv) \<Longrightarrow> latin1 (JSON_stringify (snd kv)) \<Longrightarrow> latin1 (member_text kv)"
  by (simp add: member_text_def latin1_quote)

lemma latin1_join:
  "\<forall>x \<in> set xs. latin1 x \<Longrightarrow> latin1 (join [44] xs)"
  by (induction "[44::nat]" xs rule: join.induct) simp_all

lemma latin1_object:
  assumes "\<forall>kv \<in> set kvs. is_simple (snd kv)"
    "\<forall>kv \<in> set kvs. latin1 (fst kv) \<and> latin1 (JSON_stringify (snd kv))"
  shows "latin1 (JSON_stringify (JObj kvs))"
proof -
  have "\<forall>x \<in> set (map member_text kvs). latin1 x"
    using assms(2) by (auto intro: latin1_member)
  then have "latin1 (join [44] (map member_text kvs))" by (rule latin1_join)
  then show ?thesis by (simp only: stringify_object[OF assms(1)]) simp
qed

lemma createSignature_part:
  "createSignature data (JWT_SECRET env) = Inr (signature_part env data)"
  unfolding signature_part_def using JWT_SECRET_nonempty by (rule createSignature_eq)

lemma verifyToken_try_signed:
  assumes "46 \<notin> set h" "kvs \<noteq> []" "\<forall>kv \<in> set kvs. is_simple (snd kv)"
    "latin1 (JSON_stringify (JObj kvs))"
  shows "verifyToken_try env now (token_of env h (JObj kvs)) =
     (let exp = (case map_of (rev kvs) (js ''exp'') of None \<Rightarrow> JUndefined | Some x \<Rightarrow> x)
      in if truthy exp \<and> js_less exp now then Inl (Error ''Token expired'')
         else Inr (JObj kvs))"
proof -
  let ?p = "payload_part (JObj kvs)"
  let ?s = "signature_part env (h @ [46] @ ?p)"
  have n1: "46 \<notin> set ?p" unfolding payload_part_def by (rule no_dot_url)
  have n2: "46 \<notin> set ?s" unfolding signature_part_def by (rule no_dot_url)
  have sp: "split 46 (h @ [46] @ ?p @ [46] @ ?s) = [h, ?p, ?s]"
    using assms(1) n1 n2 by (rule split_three)
  have enc: "base64UrlEncode (JSON_stringify (JObj kvs)) = Inr ?p"
    unfolding payload_part_def using assms(4) by (intro base64UrlEncode_eq) (simp add: latin1_def)
  have dec: "base64UrlDecode ?p = Inr (JSON_stringify (JObj kvs))"
    using enc by (rule base64Url_roundtrip)
  have par: "JSON_parse (JSON_stringify (JObj kvs)) = Inr (JObj kvs)"
    using assms(2,3) by (rule JSON_parse_stringify_object)
  show ?thesis
    unfolding token_of_def verifyToken_try_def sp
    by (simp add: createSignature_part andThen_def dec par get_field_def Let_def
          del: JSON_stringify.simps)
qed






lemma exp_lookup:
  "map_of (rev [(js ''userId'', a), (js ''email'', b), (js ''role'', r), (js ''iat'', i), (js ''exp'', x)])
     (js ''exp'') = Some x"
  by (simp add: js_def)


lemma expirationSeconds_24h: "expirationSeconds (Some (js ''24h'')) = JNum 86400"
  by (simp add: expirationSeconds_def endsWith_def parseInt_def js_def is_js_whitespace_def
        is_digit_def digits_value_def js_times_def Let_def)



text \<open>The seconds that a number of hours, a number of days and any other text stand for.\<close>

lemma parseInt_decimal:
  assumes "\<not> is_digit c" "c \<noteq> 120" "c \<noteq> 88"
  shows "parseInt (dec_nat n @ [c]) = JNum (int n)"
proof -
  obtain d ds where d: "dec_nat n = d # ds" using dec_nat_nonempty by (cases "dec_nat n") auto
  have dig: "is_digit d" using dec_nat_digits[of d n] d by simp
  then have nws: "\<not> is_js_whitespace d" by (auto simp: is_js_whitespace_def is_digit_def)
  have sign: "d \<noteq> 45" "d \<noteq> 43" using dig by (auto simp: is_digit_def)
  have nohex: "take 2 (d # ds @ [c]) \<noteq> [48, 120]" "take 2 (d # ds @ [c]) \<noteq> [48, 88]"
  proof -
    have "\<And>x. x \<in> set (ds @ [c]) \<Longrightarrow> x \<noteq> 120 \<and> x \<noteq> 88"
    proof -
      fix x assume "x \<in> set (ds @ [c])"
      then have "x \<in> set (dec_nat n) \<or> x = c" using d by auto
      then show "x \<noteq> 120 \<and> x \<noteq> 88"
      proof
        assume "x \<in> set (dec_nat n)"
        then have "is_digit x" by (rule dec_nat_digits)
        then show ?thesis by (simp add: is_digit_def)
      next
        assume "x = c"
        then show ?thesis using assms by simp
      qed
    qed
    then have h: "hd (ds @ [c]) \<noteq> 120 \<and> hd (ds @ [c]) \<noteq> 88"
      by (metis hd_in_set snoc_eq_iff_butlast)
    show "take 2 (d # ds @ [c]) \<noteq> [48, 120]" using h by (cases "ds @ [c]") auto
    show "take 2 (d # ds @ [c]) \<noteq> [48, 88]" using h by (cases "ds @ [c]") auto
  qed
  have tw: "takeWhile is_digit (d # ds @ [c]) = d # ds"
    using takeWhile_dec_nat[OF assms(1), of n "[]"] d by simp
  have dv: "digits_value (d # ds) = n" using digits_value_dec_nat[of n] d by simp
  show ?thesis using nws sign nohex
    by (simp add: parseInt_def d Let_def tw dv del: takeWhile.simps take_Cons_numeral)
qed

lemma expirationSeconds_hours:
  "expirationSeconds (Some (dec_nat n @ js ''h'')) = JNum (int n * 3600)"
proof -
  have j: "js ''h'' = [104]" by (simp add: js_def)
  have e: "endsWith (dec_nat n @ [104]) [104]" by (simp add: endsWith_def)
  have "parseInt (dec_nat n @ [104]) = JNum (int n)"
    by (rule parseInt_decimal) (simp_all add: is_digit_def)
  then show ?thesis by (simp add: expirationSeconds_def j e js_times_def)
qed

lemma expirationSeconds_days:
  "expirationSeconds (Some (dec_nat n @ js ''d'')) = JNum (int n * 86400)"
proof -
  have j: "js ''d'' = [100]" "js ''h'' = [104]" by (simp_all add: js_def)
  have e: "endsWith (dec_nat n @ [100]) [100]" "\<not> endsWith (dec_nat n @ [100]) [104]"
    by (simp_all add: endsWith_def)
  have "parseInt (dec_nat n @ [100]) = JNum (int n)"
    by (rule parseInt_decimal) (simp_all add: is_digit_def)
  then show ?thesis by (simp add: expirationSeconds_def j e js_times_def)
qed

lemma expirationSeconds_default:
  "expirationSeconds None = JNum 86400"
  "\<not> endsWith e (js ''h'') \<Longrightarrow> \<not> endsWith e (js ''d'') \<Longrightarrow> expirationSeconds (Some e) = JNum 86400"
  using expirationSeconds_24h by (simp_all add: expirationSeconds_def)

lemma verifyToken_try_format:
  "length (split 46 token) \<noteq> 3 \<Longrightarrow>
   verifyToken_try env now token = Inl (Error ''Invalid token format'')"
proof -
  assume a: "length (split 46 token) \<noteq> 3"
  show ?thesis
  proof (cases "split 46 token")
    case Nil
    then show ?thesis by (simp add: verifyToken_try_def)
  next
    case (Cons a as)
    note c1 = this
    show ?thesis
    proof (cases as)
      case Nil
      then show ?thesis using c1 by (simp add: verifyToken_try_def)
    next
      case (Cons b bs)
      note c2 = this
      show ?thesis
      proof (cases bs)
        case Nil
        then show ?thesis using c1 c2 by (simp add: verifyToken_try_def)
      next
        case (Cons d ds)
        then have "ds \<noteq> []" using a c1 c2 by auto
        then obtain e es where "ds = e # es" by (cases ds) auto
        then show ?thesis using c1 c2 Cons by (simp add: verifyToken_try_def)
      qed
    qed
  qed
qed

text \<open>
  Claim C3, as the code has it. A token that does not split at the dots into exactly
  three parts makes \<open>verifyToken\<close> fail, with the one error it has. Whether a part is
  empty is not checked.
\<close>

theorem verifyToken_wrong_part_count:
  "length (split 46 token) \<noteq> 3 \<Longrightarrow>
   verifyToken env now token = Inl (Error ''Invalid or expired token'')"
  by (simp add: verifyToken_def verifyToken_try_format)

text \<open>The three inputs that C3 names.\<close>

theorem verifyToken_wrong_part_count_witness:
  "verifyToken None 0 (js ''not.a.token.four.parts'') = Inl (Error ''Invalid or expired token'')
   \<and> verifyToken None 0 (js '''') = Inl (Error ''Invalid or expired token'')
   \<and> verifyToken None 0 (js ''a.b'') = Inl (Error ''Invalid or expired token'')"
proof -
  have "length (split 46 (js ''not.a.token.four.parts'')) \<noteq> 3" by (simp add: js_def)
  moreover have "length (split 46 (js '''')) \<noteq> 3" by (simp add: js_def)
  moreover have "length (split 46 (js ''a.b'')) \<noteq> 3" by (simp add: js_def)
  ultimately show ?thesis
    using verifyToken_wrong_part_count[of "js ''not.a.token.four.parts''" None 0]
      verifyToken_wrong_part_count[of "js ''''" None 0]
      verifyToken_wrong_part_count[of "js ''a.b''" None 0]
    by blast
qed

lemma verifyToken_signed:
  assumes "46 \<notin> set h" "kvs \<noteq> []" "\<forall>kv \<in> set kvs. is_simple (snd kv)"
    "latin1 (JSON_stringify (JObj kvs))"
    "map_of kvs (js ''exp'') = None \<or> (\<exists>x. map_of (rev kvs) (js ''exp'') = Some (JNum x) \<and> now \<le> x)"
  shows "verifyToken env now (token_of env h (JObj kvs)) = Inr (JObj kvs)"
proof -
  let ?exp = "case map_of (rev kvs) (js ''exp'') of None \<Rightarrow> JUndefined | Some x \<Rightarrow> x"
  have "\<not> (truthy ?exp \<and> js_less ?exp now)"
    using assms(5)
  proof
    assume "map_of kvs (js ''exp'') = None"
    then have "js ''exp'' \<notin> fst ` set kvs" by (simp add: map_of_eq_None_iff)
    then have "map_of (rev kvs) (js ''exp'') = None" by (simp add: map_of_eq_None_iff)
    then show ?thesis by (simp add: truthy_def)
  next
    assume "\<exists>x. map_of (rev kvs) (js ''exp'') = Some (JNum x) \<and> now \<le> x"
    then show ?thesis by (auto simp: js_less_def ToNumber_def)
  qed
  then have "verifyToken_try env now (token_of env h (JObj kvs)) = Inr (JObj kvs)"
    using verifyToken_try_signed[OF assms(1-4), of env now] by (simp add: Let_def)
  then show ?thesis by (simp add: verifyToken_def)
qed



lemma Headers_set_eq:
  "Headers_set hs name v =
     (if header_value_ok v then Inr (hs(name \<mapsto> header_value v)) else Inl TypeError)"
  by (simp add: Headers_set_def header_value_ok_def header_value_def Let_def del: bex_simps)

lemma verified_branch_eq:
  assumes "verifyToken env now token = Inr decoded"
    "get_field decoded (js ''userId'') = Inr uid" "get_field decoded (js ''role'') = Inr r"
    "header_value_ok uid" "header_value_ok r"
  shows "verified_branch env now req token =
     Inr (if startsWith (pathname req) (js ''/instructor'') \<and> r \<noteq> JStr (js ''instructor'')
          then respond (Redirect (js ''/student/quiz''))
          else if startsWith (pathname req) (js ''/student'') \<and> r \<noteq> JStr (js ''student'')
          then respond (Redirect (js ''/instructor/dashboard''))
          else respond (Next (Some ((request_headers req)
                 (js ''x-user-id'' \<mapsto> header_value uid, js ''x-user-role'' \<mapsto> header_value r)))))"
  using assms by (simp add: verified_branch_def andThen_def Headers_set_eq)




lemma middleware_protected:
  assumes "\<not> startsWith (pathname req) (js ''/api/auth'')" "pathname req \<noteq> js ''/api/health''"
    "pathname req \<noteq> js ''/login''" "pathname req \<noteq> js ''/signup''"
    "auth_token req = Some token" "token \<noteq> []"
  shows "middleware env now req =
     (case verified_branch env now req token of
        Inr resp \<Rightarrow> resp
      | Inl error \<Rightarrow>
          \<lparr>result = (if startsWith (pathname req) (js ''/api/'')
                      then Json 401 ''Invalid or expired token'' else Redirect (js ''/login'')),
           cookie_deleted = True\<rparr>)"
  using assms by (simp add: middleware_def Let_def)




lemma no_dot_header: "46 \<notin> set (payload_part header)"
  unfolding payload_part_def by (rule no_dot_url)


lemma latin1_minted: "latin1 uid \<Longrightarrow> latin1 r \<Longrightarrow> latin1 (JSON_stringify (minted_payload uid r))"
  unfolding minted_payload_def
  by (rule latin1_object) (simp_all add: latin1_js latin1_quote latin1_number)

lemma verify_minted:
  assumes "latin1 uid" "latin1 r" "now \<le> 1700086400"
  shows "verifyToken None now (minted_token uid r) = Inr (minted_payload uid r)"
proof -
  have l: "latin1 (JSON_stringify (JObj [(js ''userId'', JStr uid), (js ''email'', JStr (js ''a@b.c'')),
       (js ''role'', JStr r), (js ''iat'', JNum 1700000000), (js ''exp'', JNum 1700086400)]))"
    using latin1_minted[OF assms(1,2)] by (simp only: minted_payload_def)
  show ?thesis
    unfolding minted_token_def minted_payload_def
    using no_dot_header _ _ l
  proof (rule verifyToken_signed)
    show "map_of [(js ''userId'', JStr uid), (js ''email'', JStr (js ''a@b.c'')),
       (js ''role'', JStr r), (js ''iat'', JNum 1700000000), (js ''exp'', JNum 1700086400)] (js ''exp'') = None
      \<or> (\<exists>x. map_of (rev [(js ''userId'', JStr uid), (js ''email'', JStr (js ''a@b.c'')),
       (js ''role'', JStr r), (js ''iat'', JNum 1700000000), (js ''exp'', JNum 1700086400)]) (js ''exp'')
         = Some (JNum x) \<and> now \<le> x)"
      by (intro disjI2 exI[of _ 1700086400] conjI) (rule exp_lookup, rule assms(3))
  qed simp_all
qed

lemma minted_fields:
  "get_field (minted_payload uid r) (js ''userId'') = Inr (JStr uid)"
  "get_field (minted_payload uid r) (js ''role'') = Inr (JStr r)"
  by (simp_all add: get_field_def minted_payload_def js_def)

lemma header_ok_examples:
  "header_value_ok (JStr (js ''u1''))" "header_value_ok (JStr (js ''student''))"
  "header_value_ok (JStr (js ''instructor''))"
  "header_value (JStr (js ''u1'')) = js ''u1''"
  "header_value (JStr (js ''student'')) = js ''student''"
  "header_value (JStr (js ''instructor'')) = js ''instructor''"
  by (simp_all add: header_value_ok_def header_value_def normalize_header_value_def
        is_http_whitespace_def js_def)

lemma minted_nonempty: "minted_token uid r \<noteq> []"
  by (simp add: minted_token_def token_of_def)

lemma latin1_bare: "latin1 (JSON_stringify bare_payload)"
  unfolding bare_payload_def
  by (rule latin1_object) (simp_all add: latin1_js latin1_quote)

lemma bare_no_exp:
  "map_of [(js ''userId'', JStr (js ''u1'')), (js ''email'', JStr (js ''a@b.c'')),
           (js ''role'', JStr (js ''instructor''))] (js ''exp'') = None"
  by (simp add: js_def)

lemma verify_bare:
  "46 \<notin> set h \<Longrightarrow> verifyToken None now (token_of None h bare_payload) = Inr bare_payload"
  unfolding bare_payload_def
  by (rule verifyToken_signed)
    (use latin1_bare bare_no_exp in \<open>simp_all add: bare_payload_def del: JSON_stringify.simps\<close>)

text \<open>
  Against C3 as stated: a token whose header part is empty, with a payload and the
  signature of a dot followed by that payload under the default secret, splits into three parts
  of which the first is empty, and \<open>verifyToken\<close> returns its payload.
\<close>

theorem verifyToken_empty_header_counterexample:
  "split 46 (token_of None [] bare_payload)
     = [[], payload_part bare_payload, signature_part None ([] @ [46] @ payload_part bare_payload)]
   \<and> verifyToken None 0 (token_of None [] bare_payload) = Inr bare_payload"
proof
  have n1: "46 \<notin> set (payload_part bare_payload)" unfolding payload_part_def by (rule no_dot_url)
  have n2: "46 \<notin> set (signature_part None ([] @ [46] @ payload_part bare_payload))"
    unfolding signature_part_def by (rule no_dot_url)
  have "46 \<notin> set ([]::nat list)" by simp
  then show "split 46 (token_of None [] bare_payload)
     = [[], payload_part bare_payload, signature_part None ([] @ [46] @ payload_part bare_payload)]"
    unfolding token_of_def using n1 n2 by (rule split_three)
  show "verifyToken None 0 (token_of None [] bare_payload) = Inr bare_payload"
    by (rule verify_bare) simp
qed





lemma api_path2:
  "\<not> startsWith (js ''/api/quiz/submit'') (js ''/instructor'')"
  "\<not> startsWith (js ''/api/quiz/submit'') (js ''/student'')"
  "\<not> startsWith (js ''/api/quiz/submit'') (js ''/api/auth'')"
  "js ''/api/quiz/submit'' \<noteq> js ''/api/health''"
  "js ''/api/quiz/submit'' \<noteq> js ''/login''"
  "js ''/api/quiz/submit'' \<noteq> js ''/signup''"
  "startsWith (js ''/api/quiz/submit'') (js ''/api/'')"
  by (simp_all add: startsWith_def js_def)

lemma middleware_allows:
  assumes "auth_token req = Some token" "token \<noteq> []"
    "verifyToken env now token = Inr decoded"
    "get_field decoded (js ''userId'') = Inr uid" "get_field decoded (js ''role'') = Inr r"
    "header_value_ok uid" "header_value_ok r"
    "\<not> startsWith (pathname req) (js ''/instructor'')"
    "\<not> startsWith (pathname req) (js ''/student'')"
    "\<not> startsWith (pathname req) (js ''/api/auth'')" "pathname req \<noteq> js ''/api/health''"
    "pathname req \<noteq> js ''/login''" "pathname req \<noteq> js ''/signup''"
  shows "middleware env now req =
     respond (Next (Some ((request_headers req)
        (js ''x-user-id'' \<mapsto> header_value uid, js ''x-user-role'' \<mapsto> header_value r))))"
proof -
  have "middleware env now req =
     (case verified_branch env now req token of
        Inr resp \<Rightarrow> resp
      | Inl error \<Rightarrow>
          \<lparr>result = (if startsWith (pathname req) (js ''/api/'')
                      then Json 401 ''Invalid or expired token'' else Redirect (js ''/login'')),
           cookie_deleted = True\<rparr>)"
    using assms(10-13) assms(1,2) by (rule middleware_protected)
  then show ?thesis
    using assms(8,9) by (simp add: verified_branch_eq[OF assms(3-7)])
qed


text \<open>
  Claim C10, as the code has it. With a token that \<open>verifyToken\<close> accepts and whose
  \<open>userId\<close> and \<open>role\<close> are acceptable header values, on every path outside
  \<open>/instructor\<close>, \<open>/student\<close>, \<open>/api/auth\<close>, \<open>/api/health\<close>, \<open>/login\<close> and
  \<open>/signup\<close>, the middleware lets the request through with the headers \<open>x-user-id\<close> and
  \<open>x-user-role\<close> set from the token, whatever the role is.
\<close>

theorem middleware_other_routes:
  assumes "auth_token req = Some token" "token \<noteq> []"
    "verifyToken env now token = Inr decoded"
    "get_field decoded (js ''userId'') = Inr uid" "get_field decoded (js ''role'') = Inr r"
    "header_value_ok uid" "header_value_ok r"
    "\<not> startsWith (pathname req) (js ''/instructor'')"
    "\<not> startsWith (pathname req) (js ''/student'')"
    "\<not> startsWith (pathname req) (js ''/api/auth'')" "pathname req \<noteq> js ''/api/health''"
    "pathname req \<noteq> js ''/login''" "pathname req \<noteq> js ''/signup''"
  shows "middleware env now req =
     respond (Next (Some ((request_headers req)
        (js ''x-user-id'' \<mapsto> header_value uid, js ''x-user-role'' \<mapsto> header_value r))))"
  using assms by (rule middleware_allows)

text \<open>An instructor on the route \<open>/api/quiz/submit\<close>, whose handler requires a student.\<close>

theorem middleware_other_routes_witness:
  "middleware None 1700000000
     \<lparr>pathname = js ''/api/quiz/submit'',
      auth_token = Some (minted_token (js ''u1'') (js ''instructor'')),
      request_headers = Map.empty\<rparr>
     = respond (Next (Some (Map.empty(js ''x-user-id'' \<mapsto> js ''u1'',
                                       js ''x-user-role'' \<mapsto> js ''instructor''))))"
proof -
  let ?r = "\<lparr>pathname = js ''/api/quiz/submit'',
      auth_token = Some (minted_token (js ''u1'') (js ''instructor'')), request_headers = Map.empty\<rparr>"
  have v: "verifyToken None 1700000000 (minted_token (js ''u1'') (js ''instructor''))
            = Inr (minted_payload (js ''u1'') (js ''instructor''))"
    by (rule verify_minted) (simp_all add: latin1_js)
  have "middleware None 1700000000 ?r =
     respond (Next (Some ((request_headers ?r)
        (js ''x-user-id'' \<mapsto> header_value (JStr (js ''u1'')),
         js ''x-user-role'' \<mapsto> header_value (JStr (js ''instructor''))))))"
    by (rule middleware_other_routes[where token = "minted_token (js ''u1'') (js ''instructor'')"
          and decoded = "minted_payload (js ''u1'') (js ''instructor'')"])
      (simp_all add: v minted_fields header_ok_examples minted_nonempty api_path2)
  then show ?thesis by (simp add: header_ok_examples)
qed


lemma expired_minted:
  "verifyToken_try None 1700086401 (minted_token (js ''u1'') (js ''student''))
   = Inl (Error ''Token expired'')"
proof -
  let ?kvs = "[(js ''userId'', JStr (js ''u1'')), (js ''email'', JStr (js ''a@b.c'')),
       (js ''role'', JStr (js ''student'')), (js ''iat'', JNum 1700000000),
       (js ''exp'', JNum 1700086400)]"
  have l: "latin1 (JSON_stringify (JObj ?kvs))"
    using latin1_minted[of "js ''u1''" "js ''student''"] by (simp only: minted_payload_def latin1_js)
  have "verifyToken_try None 1700086401 (token_of None (payload_part header) (JObj ?kvs)) =
     (let exp = (case map_of (rev ?kvs) (js ''exp'') of None \<Rightarrow> JUndefined | Some x \<Rightarrow> x)
      in if truthy exp \<and> js_less exp 1700086401 then Inl (Error ''Token expired'')
         else Inr (JObj ?kvs))"
    using no_dot_header _ _ l by (rule verifyToken_try_signed) simp_all
  then show ?thesis
    by (simp only: exp_lookup minted_token_def minted_payload_def)
       (simp add: truthy_def js_less_def ToNumber_def)
qed

section \<open>The errors of verifyToken\<close>

text \<open>
  Claim C2, as the code has it. Whatever the reason of the failure, \<open>verifyToken\<close> throws
  the one error \<open>Invalid or expired token\<close>: its result is that error or a payload.
\<close>

theorem verifyToken_one_error:
  "verifyToken env now token = Inl (Error ''Invalid or expired token'')
   \<or> (\<exists>payload. verifyToken env now token = Inr payload)"
  by (cases "verifyToken_try env now token") (simp_all add: verifyToken_def)

text \<open>
  Against C2 as stated: inside the \<open>try\<close> block the token \<open>a.b\<close> fails on its
  format, \<open>a.b.c\<close> on its signature and a minted token, one second after its expiry, on
  the expiry; \<open>verifyToken\<close> returns the same for all three.
\<close>

theorem verifyToken_kinds_counterexample:
  "verifyToken_try None 0 (js ''a.b'') = Inl (Error ''Invalid token format'')
   \<and> verifyToken_try None 0 (js ''a.b.c'') = Inl (Error ''Invalid signature'')
   \<and> verifyToken_try None 1700086401 (minted_token (js ''u1'') (js ''student''))
       = Inl (Error ''Token expired'')
   \<and> verifyToken None 0 (js ''a.b'') = verifyToken None 0 (js ''a.b.c'')
   \<and> verifyToken None 0 (js ''a.b'')
       = verifyToken None 1700086401 (minted_token (js ''u1'') (js ''student''))"
proof -
  have 1: "verifyToken_try None 0 (js ''a.b'') = Inl (Error ''Invalid token format'')"
    by (simp add: verifyToken_try_def split_ab)
  obtain sig where s: "createSignature ([97] @ [46] @ [98]) (JWT_SECRET None) = Inr sig"
    using createSignature_eq[OF JWT_SECRET_nonempty] by blast
  then have "length sig = 86" by (rule length_createSignature)
  then have "[99] \<noteq> sig" by auto
  then have 2: "verifyToken_try None 0 (js ''a.b.c'') = Inl (Error ''Invalid signature'')"
    using s by (simp add: verifyToken_try_def split_abc andThen_def)
  show ?thesis using 1 2 expired_minted by (simp add: verifyToken_def)
qed

end
